theory Spec2Isabelle
  imports Main "HOL-Library.Word"
begin

section \<open>JavaScript strings and the platform functions used by \<open>Utils\<close>\<close>

text \<open>
  A JavaScript string is a sequence of 16-bit code units. String literals of the source
  are written \<open>js ''...''\<close>. The functions of this section are the built-ins that
  \<open>content.js\<close> calls (\<open>trim\<close>, \<open>encodeURIComponent\<close>, \<open>unescape\<close>, \<open>btoa\<close>,
  \<open>atob\<close>, \<open>escape\<close>, \<open>decodeURIComponent\<close>), written after ECMA-262 and the HTML
  standard; an exception is the left summand of the result.
\<close>

type_synonym jsstring = "16 word list"

datatype js_error = URIError | InvalidCharacterError | TypeError

definition js :: "string \<Rightarrow> jsstring" where
  "js s = map (\<lambda>c. of_nat (of_char c)) s"

definition isWhiteSpace :: "16 word \<Rightarrow> bool" where
  \<comment> \<open>WhiteSpace and LineTerminator of ECMA-262, the characters \<open>trim\<close> strips\<close>
  "isWhiteSpace c = (c \<in> set [0x09, 0x0A, 0x0B, 0x0C, 0x0D, 0x20, 0xA0, 0x1680,
       0x2000, 0x2001, 0x2002, 0x2003, 0x2004, 0x2005, 0x2006, 0x2007, 0x2008, 0x2009, 0x200A,
       0x2028, 0x2029, 0x202F, 0x205F, 0x3000, 0xFEFF])"

definition trim :: "jsstring \<Rightarrow> jsstring" where
  "trim s = rev (dropWhile isWhiteSpace (rev (dropWhile isWhiteSpace s)))"

subsection \<open>Hexadecimal digits and percent escapes\<close>

definition hexDigit :: "nat \<Rightarrow> 16 word" where
  \<comment> \<open>upper-case digit of a value below 16\<close>
  "hexDigit n = (if n < 10 then of_nat (48 + n) else of_nat (55 + n))"

definition hexValue :: "16 word \<Rightarrow> nat option" where
  "hexValue c = (let n = unat c in
     if 48 \<le> n \<and> n \<le> 57 then Some (n - 48)
     else if 65 \<le> n \<and> n \<le> 70 then Some (n - 55)
     else if 97 \<le> n \<and> n \<le> 102 then Some (n - 87)
     else None)"

fun parseHexFrom :: "nat \<Rightarrow> jsstring \<Rightarrow> nat option" where
  "parseHexFrom a [] = Some a"
| "parseHexFrom a (d # ds) =
     (case hexValue d of None \<Rightarrow> None | Some v \<Rightarrow> parseHexFrom (16 * a + v) ds)"

definition parseHex :: "jsstring \<Rightarrow> nat option" where
  \<comment> \<open>the value of a non-empty string of hexadecimal digits\<close>
  "parseHex ds = (if ds = [] then None else parseHexFrom 0 ds)"

definition percent :: "nat \<Rightarrow> jsstring" where
  \<comment> \<open>\<open>%XX\<close> for an octet\<close>
  "percent b = [0x25, hexDigit (b div 16), hexDigit (b mod 16)]"

definition isAlnum :: "16 word \<Rightarrow> bool" where
  "isAlnum c = (let n = unat c in
     (48 \<le> n \<and> n \<le> 57) \<or> (65 \<le> n \<and> n \<le> 90) \<or> (97 \<le> n \<and> n \<le> 122))"

definition uriUnreserved :: "16 word \<Rightarrow> bool" where
  \<comment> \<open>letters, digits and \<open>- _ . ! ~ * ' ( )\<close>\<close>
  "uriUnreserved c = (isAlnum c \<or> c \<in> set [0x2D, 0x5F, 0x2E, 0x21, 0x7E, 0x2A, 0x27, 0x28, 0x29])"

definition escapeUnescaped :: "16 word \<Rightarrow> bool" where
  \<comment> \<open>letters, digits, \<open>_\<close> and \<open>@ * + - . /\<close>\<close>
  "escapeUnescaped c = (isAlnum c \<or> c \<in> set [0x5F, 0x40, 0x2A, 0x2B, 0x2D, 0x2E, 0x2F])"

subsection \<open>UTF-16 and UTF-8\<close>

definition isLeadingSurrogate :: "16 word \<Rightarrow> bool" where
  "isLeadingSurrogate c = (0xD800 \<le> unat c \<and> unat c \<le> 0xDBFF)"

definition isTrailingSurrogate :: "16 word \<Rightarrow> bool" where
  "isTrailingSurrogate c = (0xDC00 \<le> unat c \<and> unat c \<le> 0xDFFF)"

definition UTF16SurrogatePairToCodePoint :: "16 word \<Rightarrow> 16 word \<Rightarrow> nat" where
  "UTF16SurrogatePairToCodePoint lead trail =
     (unat lead - 0xD800) * 0x400 + (unat trail - 0xDC00) + 0x10000"

definition UTF16EncodeCodePoint :: "nat \<Rightarrow> jsstring" where
  "UTF16EncodeCodePoint cp =
     (if cp \<le> 0xFFFF then [of_nat cp]
      else [of_nat ((cp - 0x10000) div 0x400 + 0xD800),
            of_nat ((cp - 0x10000) mod 0x400 + 0xDC00)])"

definition utf8Encode :: "nat \<Rightarrow> nat list" where
  "utf8Encode cp =
     (if cp < 0x80 then [cp]
      else if cp < 0x800 then [0xC0 + cp div 64, 0x80 + cp mod 64]
      else if cp < 0x10000 then
        [0xE0 + cp div 4096, 0x80 + (cp div 64) mod 64, 0x80 + cp mod 64]
      else [0xF0 + cp div 262144, 0x80 + (cp div 4096) mod 64,
            0x80 + (cp div 64) mod 64, 0x80 + cp mod 64])"

definition leadingOnes :: "nat \<Rightarrow> nat" where
  \<comment> \<open>number of leading 1 bits of an octet (5 stands for "more than four")\<close>
  "leadingOnes b =
     (if b < 0x80 then 0 else if b < 0xC0 then 1 else if b < 0xE0 then 2
      else if b < 0xF0 then 3 else if b < 0xF8 then 4 else 5)"

definition isContinuation :: "nat \<Rightarrow> bool" where
  "isContinuation b = (0x80 \<le> b \<and> b < 0xC0)"

fun utf8Decode :: "nat list \<Rightarrow> nat option" where
  \<comment> \<open>the code point of a valid UTF-8 sequence of two to four octets: continuation
      octets in range, no overlong form, no surrogate, at most U+10FFFF\<close>
  "utf8Decode [b0, b1] =
     (let v = (b0 - 0xC0) * 64 + (b1 - 0x80)
      in if isContinuation b1 \<and> 0x80 \<le> v then Some v else None)"
| "utf8Decode [b0, b1, b2] =
     (let v = (b0 - 0xE0) * 4096 + (b1 - 0x80) * 64 + (b2 - 0x80)
      in if isContinuation b1 \<and> isContinuation b2 \<and> 0x800 \<le> v \<and> \<not> (0xD800 \<le> v \<and> v \<le> 0xDFFF)
         then Some v else None)"
| "utf8Decode [b0, b1, b2, b3] =
     (let v = (b0 - 0xF0) * 262144 + (b1 - 0x80) * 4096 + (b2 - 0x80) * 64 + (b3 - 0x80)
      in if isContinuation b1 \<and> isContinuation b2 \<and> isContinuation b3 \<and>
            0x10000 \<le> v \<and> v \<le> 0x10FFFF
         then Some v else None)"
| "utf8Decode _ = None"

subsection \<open>\<open>encodeURIComponent\<close> and \<open>decodeURIComponent\<close>\<close>

definition onto :: "jsstring \<Rightarrow> js_error + jsstring \<Rightarrow> js_error + jsstring" where
  \<comment> \<open>the result string grows at the front unless the rest of the scan throws\<close>
  "onto x r = (case r of Inl e \<Rightarrow> Inl e | Inr t \<Rightarrow> Inr (x @ t))"

fun encodeURIComponent :: "jsstring \<Rightarrow> js_error + jsstring" where
  "encodeURIComponent [] = Inr []"
| "encodeURIComponent (c # cs) =
     (if uriUnreserved c then onto [c] (encodeURIComponent cs)
      else if \<not> isLeadingSurrogate c \<and> \<not> isTrailingSurrogate c then
        onto (concat (map percent (utf8Encode (unat c)))) (encodeURIComponent cs)
      else if isTrailingSurrogate c then Inl URIError
      else (case cs of
              [] \<Rightarrow> Inl URIError
            | d # ds \<Rightarrow>
                if isTrailingSurrogate d then
                  onto (concat (map percent (utf8Encode (UTF16SurrogatePairToCodePoint c d))))
                    (encodeURIComponent ds)
                else Inl URIError))"

fun continuationOctets :: "nat \<Rightarrow> jsstring \<Rightarrow> nat list option" where
  \<comment> \<open>the next \<open>k\<close> escapes \<open>%XX\<close> of the string, or nothing when one of them is missing
      or malformed\<close>
  "continuationOctets 0 s = Some []"
| "continuationOctets (Suc k) (p # h # l # s) =
     (if p = 0x25 then
        (case parseHex [h, l] of
           None \<Rightarrow> None
         | Some b \<Rightarrow> (case continuationOctets k s of None \<Rightarrow> None | Some bs \<Rightarrow> Some (b # bs)))
      else None)"
| "continuationOctets (Suc k) _ = None"

fun decodeURIComponent :: "jsstring \<Rightarrow> js_error + jsstring" where
  "decodeURIComponent [] = Inr []"
| "decodeURIComponent (c # cs) =
     (if c \<noteq> 0x25 then onto [c] (decodeURIComponent cs)
      else if length cs < 2 then Inl URIError
      else (case parseHex (take 2 cs) of
              None \<Rightarrow> Inl URIError
            | Some b \<Rightarrow>
                let n = leadingOnes b in
                if n = 0 then onto [of_nat b] (decodeURIComponent (drop 2 cs))
                else if n = 1 \<or> 4 < n then Inl URIError
                else (case continuationOctets (n - 1) (drop 2 cs) of
                        None \<Rightarrow> Inl URIError
                      | Some bs \<Rightarrow>
                          (case utf8Decode (b # bs) of
                             None \<Rightarrow> Inl URIError
                           | Some v \<Rightarrow>
                               onto (UTF16EncodeCodePoint v)
                                 (decodeURIComponent (drop (3 * (n - 1)) (drop 2 cs)))))))"

subsection \<open>\<open>escape\<close> and \<open>unescape\<close>\<close>

definition escapeUnit :: "16 word \<Rightarrow> jsstring" where
  "escapeUnit c =
     (if escapeUnescaped c then [c]
      else if unat c < 256 then percent (unat c)
      else [0x25, 0x75, hexDigit (unat c div 4096), hexDigit (unat c div 256 mod 16),
            hexDigit (unat c div 16 mod 16), hexDigit (unat c mod 16)])"

definition escape :: "jsstring \<Rightarrow> jsstring" where
  "escape s = concat (map escapeUnit s)"

fun unescape :: "jsstring \<Rightarrow> jsstring" where
  "unescape [] = []"
| "unescape (c # cs) =
     (if c = 0x25 then
        (if 5 \<le> length cs \<and> hd cs = 0x75 then
           (case parseHex (take 4 (tl cs)) of
              Some n \<Rightarrow> of_nat n # unescape (drop 5 cs)
            | None \<Rightarrow> c # unescape cs)
         else if 2 \<le> length cs then
           (case parseHex (take 2 cs) of
              Some n \<Rightarrow> of_nat n # unescape (drop 2 cs)
            | None \<Rightarrow> c # unescape cs)
         else c # unescape cs)
      else c # unescape cs)"

subsection \<open>\<open>btoa\<close> and \<open>atob\<close>\<close>

definition base64Char :: "nat \<Rightarrow> 16 word" where
  "base64Char n =
     (if n < 26 then of_nat (65 + n)
      else if n < 52 then of_nat (97 + (n - 26))
      else if n < 62 then of_nat (48 + (n - 52))
      else if n = 62 then 0x2B else 0x2F)"

definition base64Value :: "16 word \<Rightarrow> nat option" where
  "base64Value c = (let n = unat c in
     if 65 \<le> n \<and> n \<le> 90 then Some (n - 65)
     else if 97 \<le> n \<and> n \<le> 122 then Some (n - 97 + 26)
     else if 48 \<le> n \<and> n \<le> 57 then Some (n - 48 + 52)
     else if n = 0x2B then Some 62
     else if n = 0x2F then Some 63
     else None)"

fun base64Encode :: "nat list \<Rightarrow> jsstring" where
  "base64Encode (a # b # c # rest) =
     [base64Char (a div 4), base64Char (a mod 4 * 16 + b div 16),
      base64Char (b mod 16 * 4 + c div 64), base64Char (c mod 64)] @ base64Encode rest"
| "base64Encode [a, b] =
     [base64Char (a div 4), base64Char (a mod 4 * 16 + b div 16),
      base64Char (b mod 16 * 4), 0x3D]"
| "base64Encode [a] = [base64Char (a div 4), base64Char (a mod 4 * 16), 0x3D, 0x3D]"
| "base64Encode [] = []"

fun base64Decode :: "nat list \<Rightarrow> nat list" where
  \<comment> \<open>sextets to octets; the bits left over at the end are discarded\<close>
  "base64Decode (a # b # c # d # rest) =
     [a * 4 + b div 16, b mod 16 * 16 + c div 4, c mod 4 * 64 + d] @ base64Decode rest"
| "base64Decode [a, b, c] = [a * 4 + b div 16, b mod 16 * 16 + c div 4]"
| "base64Decode [a, b] = [a * 4 + b div 16]"
| "base64Decode _ = []"

definition btoa :: "jsstring \<Rightarrow> js_error + jsstring" where
  "btoa s = (if list_ex (\<lambda>c. 255 < unat c) s then Inl InvalidCharacterError
             else Inr (base64Encode (map unat s)))"

definition isAsciiWhitespace :: "16 word \<Rightarrow> bool" where
  "isAsciiWhitespace c = (c \<in> set [0x09, 0x0A, 0x0C, 0x0D, 0x20])"

definition stripPadding :: "jsstring \<Rightarrow> jsstring" where
  \<comment> \<open>a string whose length is a multiple of four loses one or two final \<open>=\<close>\<close>
  "stripPadding s =
     (if length s mod 4 = 0 then rev (dropWhile (\<lambda>c. c = 0x3D) (take 2 (rev s)) @ drop 2 (rev s))
      else s)"

definition atob :: "jsstring \<Rightarrow> js_error + jsstring" where
  "atob encoded =
     (let s = stripPadding (filter (\<lambda>c. \<not> isAsciiWhitespace c) encoded) in
      if length s mod 4 = 1 then Inl InvalidCharacterError
      else if list_ex (\<lambda>c. base64Value c = None) s then Inl InvalidCharacterError
      else Inr (map of_nat (base64Decode (map (\<lambda>c. the (base64Value c)) s))))"

section \<open>Utils\<close>

definition obfuscate :: "jsstring \<Rightarrow> jsstring" where
  "obfuscate text =
     (case encodeURIComponent text of
        Inl e \<Rightarrow> text
      | Inr u \<Rightarrow> (case btoa (unescape u) of Inl e \<Rightarrow> text | Inr r \<Rightarrow> r))"

definition deobfuscate :: "jsstring \<Rightarrow> jsstring" where
  "deobfuscate encoded =
     (case atob encoded of
        Inl e \<Rightarrow> []
      | Inr b \<Rightarrow> (case decodeURIComponent (escape b) of Inl e \<Rightarrow> [] | Inr t \<Rightarrow> t))"

section \<open>The page and the browser\<close>

text \<open>
  A DOM element is known by its identity (reference equality); what the script reads of
  it are its tag name, its \<open>contenteditable\<close> attribute, its class list, its
  \<open>value\<close> and its \<open>innerText\<close>. The result of \<open>document.querySelector\<close> on the
  current tree is a field of the document, as are the ancestors through which an event
  bubbles: the page owns both.
\<close>

type_synonym elem = nat
type_synonym timer_id = nat

record element =
  tagName :: jsstring
  contenteditable :: "jsstring option"
  classList :: "jsstring list"
  elValue :: jsstring
  innerText :: jsstring

record dom =
  elements :: "elem \<Rightarrow> element"
  querySelector :: "jsstring \<Rightarrow> elem option"
  ancestors :: "elem \<Rightarrow> elem list"

record page_location =
  href :: jsstring
  hostname :: jsstring
  pathname :: jsstring

datatype adapter = TextAreaAdapter elem | ContentEditableAdapter elem

text \<open>
  The callbacks handed to \<open>setTimeout\<close>: the debounced save with the text it closed
  over, the release of the submission flag, the check that follows a click, and the two
  steps that take the toast away.
\<close>

datatype timer_action =
    DebounceSave jsstring
  | GuardRelease
  | ClickCheck
  | ToastHide
  | ToastRemove

text \<open>What the script does to its collaborators, in the order it does it.\<close>

datatype effect =
    StorageGet jsstring
  | StorageSet jsstring jsstring
  | StorageRemove jsstring
  | SurfaceWrite elem jsstring
  | Toast jsstring
  | Uncaught js_error

text \<open>
  The first five fields of the state are the fields of \<open>DraftManager\<close>; \<open>lastUrl\<close> is
  the variable the URL observer closes over, and \<open>domObserving\<close> and \<open>urlObserving\<close>
  say that the two mutation observers are installed. The rest is the page and the
  browser: the document and the location, the extension's storage, the clock in
  milliseconds, the pending timers with their due times, the listeners the script has
  added (one entry for each call of \<open>addEventListener\<close>, by element; the script never
  removes one), the storage reads whose callbacks have not run yet, and the trace of
  effects. The script starts when \<open>document.body\<close> exists, and an element keeps the
  value it is assigned.
\<close>

record state =
  currentInput :: "elem option"
  adapter :: "adapter option"
  typingTimer :: "timer_id option"
  isSubmitting :: bool
  globalClickListenerAttached :: bool
  lastUrl :: jsstring
  domObserving :: bool
  urlObserving :: bool
  document :: dom
  location :: page_location
  storage :: "jsstring \<rightharpoonup> jsstring"
  now :: nat
  timers :: "(timer_id \<times> nat \<times> timer_action) list"
  nextTimer :: timer_id
  inputListeners :: "elem list"
  keydownListeners :: "elem list"
  clickListeners :: nat
  pendingGets :: "(jsstring \<times> jsstring option) list"
  trace :: "effect list"

definition DEBOUNCE_MS :: nat where
  "DEBOUNCE_MS = 500"

definition STORAGE_PREFIX :: jsstring where
  "STORAGE_PREFIX = js ''draft_''"

subsection \<open>Timers\<close>

definition setTimeout :: "timer_action \<Rightarrow> nat \<Rightarrow> state \<Rightarrow> state" where
  \<comment> \<open>the new timer's identifier is \<open>nextTimer\<close> of the state before\<close>
  "setTimeout act delay s =
     s\<lparr>timers := timers s @ [(nextTimer s, now s + delay, act)],
       nextTimer := Suc (nextTimer s)\<rparr>"

definition clearTimeout :: "timer_id option \<Rightarrow> state \<Rightarrow> state" where
  "clearTimeout t s =
     (case t of
        None \<Rightarrow> s
      | Some i \<Rightarrow> s\<lparr>timers := filter (\<lambda>x. fst x \<noteq> i) (timers s)\<rparr>)"

definition lookupTimer :: "timer_id \<Rightarrow> state \<Rightarrow> (nat \<times> timer_action) option" where
  "lookupTimer i s = map_of (timers s) i"

subsection \<open>Extension storage\<close>

definition storageRemove :: "jsstring \<Rightarrow> state \<Rightarrow> state" where
  "storageRemove key s =
     s\<lparr>storage := (storage s)(key := None), trace := trace s @ [StorageRemove key]\<rparr>"

definition storageSet :: "jsstring \<Rightarrow> jsstring \<Rightarrow> state \<Rightarrow> state" where
  "storageSet key v s =
     s\<lparr>storage := (storage s)(key \<mapsto> v), trace := trace s @ [StorageSet key v]\<rparr>"

definition storageGet :: "jsstring \<Rightarrow> state \<Rightarrow> state" where
  \<comment> \<open>the request is queued with the value it will deliver: storage calls of one page
      are served in the order they were made\<close>
  "storageGet key s =
     s\<lparr>pendingGets := pendingGets s @ [(key, storage s key)],
       trace := trace s @ [StorageGet key]\<rparr>"

section \<open>Utils, continued\<close>

definition getStorageKey :: "state \<Rightarrow> jsstring" where
  "getStorageKey s = STORAGE_PREFIX @ hostname (location s) @ pathname (location s)"

definition showToast :: "jsstring \<Rightarrow> state \<Rightarrow> state" where
  "showToast message s = setTimeout ToastHide 3000 (s\<lparr>trace := trace s @ [Toast message]\<rparr>)"

section \<open>Adapters\<close>

fun el :: "adapter \<Rightarrow> elem" where
  "el (TextAreaAdapter e) = e"
| "el (ContentEditableAdapter e) = e"

fun getValue :: "adapter \<Rightarrow> dom \<Rightarrow> jsstring" where
  "getValue (TextAreaAdapter e) d = elValue (elements d e)"
| "getValue (ContentEditableAdapter e) d = innerText (elements d e)"

fun writeValue :: "adapter \<Rightarrow> jsstring \<Rightarrow> dom \<Rightarrow> dom" where
  \<comment> \<open>the assignment that \<open>setValue\<close> starts with\<close>
  "writeValue (TextAreaAdapter e) v d =
     d\<lparr>elements := (elements d)(e := (elements d e)\<lparr>elValue := v\<rparr>)\<rparr>"
| "writeValue (ContentEditableAdapter e) v d =
     d\<lparr>elements := (elements d)(e := (elements d e)\<lparr>innerText := v\<rparr>)\<rparr>"

definition bindInput :: "adapter \<Rightarrow> state \<Rightarrow> state" where
  "bindInput a s = s\<lparr>inputListeners := inputListeners s @ [el a]\<rparr>"

definition bindSubmit :: "adapter \<Rightarrow> state \<Rightarrow> state" where
  "bindSubmit a s = s\<lparr>keydownListeners := keydownListeners s @ [el a]\<rparr>"

definition AdapterFactory_create :: "element \<Rightarrow> elem \<Rightarrow> adapter option" where
  "AdapterFactory_create x e =
     (if tagName x = js ''TEXTAREA'' \<or> tagName x = js ''INPUT'' then Some (TextAreaAdapter e)
      else if contenteditable x = Some (js ''true'') \<or> js ''ql-editor'' \<in> set (classList x)
        then Some (ContentEditableAdapter e)
      else None)"

section \<open>DraftManager\<close>

definition selectors :: "jsstring \<Rightarrow> jsstring option" where
  "selectors h =
     (if h = js ''chatgpt.com'' then Some (js ''#prompt-textarea'')
      else if h = js ''gemini.google.com''
        then Some (js ''.ql-editor, textarea, [contenteditable='true']'')
      else if h = js ''www.perplexity.ai'' then Some (js ''textarea'')
      else None)"

definition handleSendSuccess :: "state \<Rightarrow> state" where
  "handleSendSuccess s = storageRemove (getStorageKey s) s"

definition saveDraft :: "jsstring \<Rightarrow> state \<Rightarrow> state" where
  "saveDraft text s =
     (let key = getStorageKey s in
      if text = [] \<or> trim text = [] then storageRemove key s
      else storageSet key (obfuscate text) s)"

definition handleInput :: "state \<Rightarrow> state" where
  \<comment> \<open>with no adapter bound, \<open>this.adapter.getValue()\<close> throws after the timer was
      cleared\<close>
  "handleInput s =
     (if isSubmitting s then s
      else
        let s1 = clearTimeout (typingTimer s) s in
        (case adapter s1 of
           None \<Rightarrow> s1\<lparr>trace := trace s1 @ [Uncaught TypeError]\<rparr>
         | Some a \<Rightarrow>
             (setTimeout (DebounceSave (getValue a (document s1))) DEBOUNCE_MS s1)
               \<lparr>typingTimer := Some (nextTimer s1)\<rparr>))"

definition handleKeydown :: "jsstring \<Rightarrow> bool \<Rightarrow> state \<Rightarrow> state" where
  "handleKeydown key shiftKey s =
     (if key = js ''Enter'' \<and> \<not> shiftKey then
        let s1 = s\<lparr>isSubmitting := True\<rparr>;
            s2 = clearTimeout (typingTimer s1) s1;
            s3 = handleSendSuccess s2
        in setTimeout GuardRelease 2000 s3
      else s)"

text \<open>
  An event dispatched at an element runs the listeners of the element and then, as it
  bubbles, those of its ancestors; each listener is the same bound method of the one
  manager, and a listener that throws does not stop the others.
\<close>

definition listenersOnPath :: "elem list \<Rightarrow> dom \<Rightarrow> elem \<Rightarrow> nat" where
  \<comment> \<open>how many of the registered listeners an event dispatched at \<open>e\<close> runs\<close>
  "listenersOnPath ls d e = length (filter (\<lambda>x. x \<in> set (e # ancestors d e)) ls)"

definition dispatchInput :: "elem \<Rightarrow> state \<Rightarrow> state" where
  "dispatchInput e s = (handleInput ^^ listenersOnPath (inputListeners s) (document s) e) s"

definition dispatchKeydown :: "elem \<Rightarrow> jsstring \<Rightarrow> bool \<Rightarrow> state \<Rightarrow> state" where
  "dispatchKeydown e key shiftKey s =
     (handleKeydown key shiftKey ^^ listenersOnPath (keydownListeners s) (document s) e) s"

definition setValue :: "adapter \<Rightarrow> jsstring \<Rightarrow> state \<Rightarrow> state" where
  \<comment> \<open>assign, then dispatch a bubbling \<open>input\<close> event at the element\<close>
  "setValue a v s =
     dispatchInput (el a)
       (s\<lparr>document := writeValue a v (document s), trace := trace s @ [SurfaceWrite (el a) v]\<rparr>)"

definition restoreDraft :: "state \<Rightarrow> state" where
  \<comment> \<open>the call itself: the key is computed now, the callback runs later\<close>
  "restoreDraft s = storageGet (getStorageKey s) s"

definition restoreDraft_callback :: "jsstring option \<Rightarrow> state \<Rightarrow> state" where
  \<comment> \<open>the function handed to \<open>chrome.storage.local.get\<close>, run on \<open>result[key]\<close>\<close>
  "restoreDraft_callback r s =
     (case r of
        None \<Rightarrow> s
      | Some encoded \<Rightarrow>
          (case adapter s of
             None \<Rightarrow> s
           | Some a \<Rightarrow>
               if encoded = [] then s
               else
                 let currentText = getValue a (document s) in
                 if currentText = [] \<or> trim currentText = [] then
                   let text = deobfuscate encoded in
                   if text \<noteq> [] then
                     showToast (js ''Draft restored '' @ [0x2705]) (setValue a text s)
                   else s
                 else s))"

definition observeDOM_callback :: "state \<Rightarrow> state" where
  "observeDOM_callback s =
     (case selectors (hostname (location s)) of
        None \<Rightarrow> s
      | Some selector \<Rightarrow>
          (case querySelector (document s) selector of
             None \<Rightarrow> s
           | Some box \<Rightarrow>
               if currentInput s = Some box then s
               else
                 let s1 = s\<lparr>currentInput := Some box,
                            adapter := AdapterFactory_create (elements (document s) box) box\<rparr>
                 in (case adapter s1 of
                       None \<Rightarrow> s1
                     | Some a \<Rightarrow> bindSubmit a (bindInput a (restoreDraft s1)))))"

definition observeURL_callback :: "state \<Rightarrow> state" where
  "observeURL_callback s =
     (if href (location s) \<noteq> lastUrl s
      then s\<lparr>lastUrl := href (location s), currentInput := None\<rparr>
      else s)"

definition click_listener :: "state \<Rightarrow> state" where
  \<comment> \<open>the capture-phase listener on the document\<close>
  "click_listener s = setTimeout ClickCheck 500 s"

definition click_check :: "state \<Rightarrow> state" where
  \<comment> \<open>the function the click listener delays\<close>
  "click_check s =
     (case adapter s of
        None \<Rightarrow> s
      | Some a \<Rightarrow>
          let text = getValue a (document s) in
          if text = [] \<or> trim text = [] then handleSendSuccess s else s)"

definition observeDOM :: "state \<Rightarrow> state" where
  "observeDOM s = s\<lparr>domObserving := True\<rparr>"

definition observeURL :: "state \<Rightarrow> state" where
  "observeURL s = s\<lparr>lastUrl := href (location s), urlObserving := True\<rparr>"

definition attachGlobalClickListener :: "state \<Rightarrow> state" where
  "attachGlobalClickListener s =
     (if globalClickListenerAttached s then s
      else s\<lparr>clickListeners := Suc (clickListeners s), globalClickListenerAttached := True\<rparr>)"

definition DraftManager_new ::
    "dom \<Rightarrow> page_location \<Rightarrow> (jsstring \<rightharpoonup> jsstring) \<Rightarrow> state" where
  \<comment> \<open>the constructor, in a page with this document, this location and these drafts
      left in storage by earlier visits\<close>
  "DraftManager_new d l st =
     \<lparr>currentInput = None, adapter = None, typingTimer = None, isSubmitting = False,
      globalClickListenerAttached = False, lastUrl = [], domObserving = False,
      urlObserving = False, document = d, location = l, storage = st, now = 0, timers = [],
      nextTimer = 0, inputListeners = [], keydownListeners = [], clickListeners = 0,
      pendingGets = [], trace = []\<rparr>"

definition init :: "state \<Rightarrow> state" where
  "init s = attachGlobalClickListener (observeURL (observeDOM s))"

definition bootstrap :: "dom \<Rightarrow> page_location \<Rightarrow> (jsstring \<rightharpoonup> jsstring) \<Rightarrow> state" where
  "bootstrap d l st = init (DraftManager_new d l st)"

section \<open>The event loop\<close>

text \<open>
  Handlers run to completion, one event at a time. A timer runs only when it is pending
  and due; the observers are told of a mutation in the order they were created, the one
  on the body first.
\<close>

fun timer_callback :: "timer_action \<Rightarrow> state \<Rightarrow> state" where
  "timer_callback (DebounceSave text) s = (if \<not> isSubmitting s then saveDraft text s else s)"
| "timer_callback GuardRelease s = s\<lparr>isSubmitting := False\<rparr>"
| "timer_callback ClickCheck s = click_check s"
| "timer_callback ToastHide s = setTimeout ToastRemove 300 s"
| "timer_callback ToastRemove s = s"

definition fireTimer :: "timer_id \<Rightarrow> state \<Rightarrow> state" where
  "fireTimer i s =
     (case lookupTimer i s of
        None \<Rightarrow> s
      | Some (due, act) \<Rightarrow>
          if now s < due then s
          else timer_callback act (s\<lparr>timers := filter (\<lambda>x. fst x \<noteq> i) (timers s)\<rparr>))"

definition storageGetReturns :: "state \<Rightarrow> state" where
  "storageGetReturns s =
     (case pendingGets s of
        [] \<Rightarrow> s
      | (key, r) # rest \<Rightarrow> restoreDraft_callback r (s\<lparr>pendingGets := rest\<rparr>))"

datatype event =
    BodyMutation
  | DocumentMutation
  | InputEvent elem
  | KeydownEvent elem jsstring bool
  | ClickEvent
  | TimerFires timer_id
  | StorageGetReturns
  | Advance nat
  | PageSetsDocument dom
  | PageSetsLocation page_location

fun step :: "event \<Rightarrow> state \<Rightarrow> state" where
  "step BodyMutation s =
     (let s1 = (if domObserving s then observeDOM_callback s else s)
      in if urlObserving s1 then observeURL_callback s1 else s1)"
| "step DocumentMutation s = (if urlObserving s then observeURL_callback s else s)"
| "step (InputEvent e) s = dispatchInput e s"
| "step (KeydownEvent e key shiftKey) s = dispatchKeydown e key shiftKey s"
| "step ClickEvent s = (click_listener ^^ clickListeners s) s"
| "step (TimerFires i) s = fireTimer i s"
| "step StorageGetReturns s = storageGetReturns s"
| "step (Advance n) s = s\<lparr>now := now s + n\<rparr>"
| "step (PageSetsDocument d) s = s\<lparr>document := d\<rparr>"
| "step (PageSetsLocation l) s = s\<lparr>location := l\<rparr>"

fun run :: "state \<Rightarrow> event list \<Rightarrow> state" where
  "run s [] = s"
| "run s (e # es) = run (step e s) es"

section \<open>Notions used in the properties\<close>

fun isStoreWrite :: "effect \<Rightarrow> bool" where
  "isStoreWrite (StorageSet k v) = True"
| "isStoreWrite (StorageRemove k) = True"
| "isStoreWrite _ = False"

definition storeWrites :: "state \<Rightarrow> effect list" where
  \<comment> \<open>the \<open>set\<close> and \<open>remove\<close> calls made so far\<close>
  "storeWrites s = filter isStoreWrite (trace s)"

fun isSurfaceWrite :: "effect \<Rightarrow> bool" where
  "isSurfaceWrite (SurfaceWrite e v) = True"
| "isSurfaceWrite _ = False"

fun isDebounce :: "timer_action \<Rightarrow> bool" where
  "isDebounce (DebounceSave text) = True"
| "isDebounce _ = False"

definition timerIds :: "state \<Rightarrow> timer_id list" where
  "timerIds s = map fst (timers s)"

definition debouncePending :: "state \<Rightarrow> bool" where
  "debouncePending s = list_ex (\<lambda>t. isDebounce (snd (snd t))) (timers s)"

definition isTRACKING :: "state \<Rightarrow> bool" where
  \<comment> \<open>the specification's state \<open>TRACKING\<close>: adapter bound, no pending save, guard off\<close>
  "isTRACKING s = (adapter s \<noteq> None \<and> \<not> debouncePending s \<and> \<not> isSubmitting s)"

definition timersOk :: "state \<Rightarrow> bool" where
  \<comment> \<open>timer identifiers are not reused, and the only debounced save that can be
      pending is the one \<open>typingTimer\<close> names\<close>
  "timersOk s =
     list_all (\<lambda>t. fst t < nextTimer s \<and>
                    (isDebounce (snd (snd t)) \<longrightarrow> typingTimer s = Some (fst t))) (timers s)"

definition retired :: "timer_id \<Rightarrow> state \<Rightarrow> bool" where
  \<comment> \<open>the timer was created and is no longer pending\<close>
  "retired i s = (i < nextTimer s \<and> i \<notin> set (timerIds s))"

fun wellFormed :: "jsstring \<Rightarrow> bool" where
  \<comment> \<open>no unpaired surrogate (\<open>String.prototype.isWellFormed\<close>)\<close>
  "wellFormed [] = True"
| "wellFormed (c # cs) =
     (if isLeadingSurrogate c then
        (case cs of [] \<Rightarrow> False | d # ds \<Rightarrow> isTrailingSurrogate d \<and> wellFormed ds)
      else \<not> isTrailingSurrogate c \<and> wellFormed cs)"

definition guardOk :: "state \<Rightarrow> bool" where
  \<comment> \<open>moreover no debounced save is pending while the submission flag is set\<close>
  "guardOk s = (timersOk s \<and> (isSubmitting s \<longrightarrow> \<not> debouncePending s))"

fun utf8Bytes :: "jsstring \<Rightarrow> nat list" where
  \<comment> \<open>the UTF-8 octets of a well-formed string\<close>
  "utf8Bytes [] = []"
| "utf8Bytes (c # cs) =
     (if isLeadingSurrogate c then
        (case cs of
           [] \<Rightarrow> []
         | d # ds \<Rightarrow> utf8Encode (UTF16SurrogatePairToCodePoint c d) @ utf8Bytes ds)
      else utf8Encode (unat c) @ utf8Bytes cs)"

fun sextets :: "nat list \<Rightarrow> nat list" where
  \<comment> \<open>the six-bit groups of a list of octets\<close>
  "sextets (a # b # c # rest) =
     [a div 4, a mod 4 * 16 + b div 16, b mod 16 * 4 + c div 64, c mod 64] @ sextets rest"
| "sextets [a, b] = [a div 4, a mod 4 * 16 + b div 16, b mod 16 * 4]"
| "sextets [a] = [a div 4, a mod 4 * 16]"
| "sextets [] = []"

subsection \<open>A page to evaluate on\<close>

definition example_textarea :: element where
  "example_textarea = \<lparr>tagName = js ''TEXTAREA'', contenteditable = None, classList = [],
     elValue = js ''Hi'', innerText = []\<rparr>"

definition example_editor :: element where
  "example_editor = \<lparr>tagName = js ''DIV'', contenteditable = Some (js ''true''),
     classList = [js ''ql-editor''], elValue = [], innerText = []\<rparr>"

definition example_dom :: dom where
  \<comment> \<open>element 0 is a text area holding \<open>Hi\<close>, the first match of the selector\<close>
  "example_dom = \<lparr>elements = (\<lambda>e. if e = 0 then example_textarea else example_editor),
     querySelector = (\<lambda>q. Some 0), ancestors = (\<lambda>e. [])\<rparr>"

definition example_dom2 :: dom where
  \<comment> \<open>the same page after an empty rich-text editor, element 1, was inserted before
      the text area\<close>
  "example_dom2 = example_dom\<lparr>querySelector := (\<lambda>q. Some 1)\<rparr>"

definition example_location :: page_location where
  "example_location = \<lparr>href = js ''https://gemini.google.com/app'',
     hostname = js ''gemini.google.com'', pathname = js ''/app''\<rparr>"

definition example_location2 :: page_location where
  "example_location2 = \<lparr>href = js ''https://gemini.google.com/app/2'',
     hostname = js ''gemini.google.com'', pathname = js ''/app/2''\<rparr>"

definition example_start :: state where
  "example_start = bootstrap example_dom example_location Map.empty"

definition example_tracking :: state where
  \<comment> \<open>the text area has been found and bound\<close>
  "example_tracking = run example_start [BodyMutation, StorageGetReturns]"

definition example_pending :: state where
  \<comment> \<open>an input event has armed the debounce timer, number 0\<close>
  "example_pending = run example_tracking [InputEvent 0]"

definition example_guarded :: state where
  \<comment> \<open>Enter was pressed\<close>
  "example_guarded = run example_pending [KeydownEvent 0 (js ''Enter'') False]"

definition example_stored :: "jsstring \<rightharpoonup> jsstring" where
  \<comment> \<open>a draft \<open>Hi\<close> left by an earlier visit\<close>
  "example_stored = [js ''draft_gemini.google.com/app'' \<mapsto> js ''SGk='']"

definition example_restoring :: state where
  \<comment> \<open>the text area, holding \<open>Hi\<close>, was bound; the stored draft is on its way\<close>
  "example_restoring = run (bootstrap example_dom example_location example_stored) [BodyMutation]"

definition example_dom_empty :: dom where
  \<comment> \<open>a page whose first match is an empty rich-text editor\<close>
  "example_dom_empty = example_dom\<lparr>elements := (\<lambda>e. example_editor)\<rparr>"

definition example_restoring_empty :: state where
  "example_restoring_empty =
     run (bootstrap example_dom_empty example_location example_stored) [BodyMutation]"

definition example_rebound :: state where
  \<comment> \<open>after the text area was bound, the editor became the first match and was bound\<close>
  "example_rebound = run example_tracking [PageSetsDocument example_dom2, BodyMutation]"

definition example_renavigated :: state where
  \<comment> \<open>the page moved to another path and kept its text area, which was bound again\<close>
  "example_renavigated =
     run example_tracking [PageSetsLocation example_location2, BodyMutation, BodyMutation]"

definition example_navigated :: state where
  \<comment> \<open>the page moved to another path\<close>
  "example_navigated = run example_tracking [PageSetsLocation example_location2]"

section \<open>Evaluation lemmas\<close>

lemmas model_defs = bootstrap_def init_def DraftManager_new_def observeDOM_def observeURL_def
  attachGlobalClickListener_def observeDOM_callback_def observeURL_callback_def
  selectors_def AdapterFactory_create_def restoreDraft_def storageGet_def storageSet_def
  storageRemove_def getStorageKey_def bindInput_def bindSubmit_def storageGetReturns_def
  restoreDraft_callback_def STORAGE_PREFIX_def DEBOUNCE_MS_def dispatchInput_def
  dispatchKeydown_def listenersOnPath_def handleInput_def handleKeydown_def
  handleSendSuccess_def saveDraft_def setTimeout_def clearTimeout_def lookupTimer_def
  fireTimer_def click_listener_def click_check_def setValue_def showToast_def

lemmas example_defs = example_textarea_def example_editor_def example_dom_def example_dom2_def
  example_location_def example_location2_def example_start_def example_tracking_def
  example_pending_def example_guarded_def example_stored_def example_restoring_def
  example_dom_empty_def example_restoring_empty_def example_rebound_def example_navigated_def
  example_renavigated_def

subsection \<open>String literals\<close>

lemma unat_unit: "n < 65536 \<Longrightarrow> unat (of_nat n :: 16 word) = n"
  by (simp add: unat_of_nat)

lemma unat_of_char: "unat (of_nat (of_char c) :: 16 word) = of_char c"
proof -
  have "(of_char c :: nat) < 256" by (cases c) (simp add: of_char_Char)
  then have "(of_char c :: nat) < 65536" by linarith
  then show ?thesis by (rule unat_unit)
qed

lemma inj_js_unit: "inj (\<lambda>c. of_nat (of_char c) :: 16 word)"
proof (rule injI)
  fix x y :: char
  assume "(of_nat (of_char x) :: 16 word) = of_nat (of_char y)"
  then have "unat (of_nat (of_char x) :: 16 word) = unat (of_nat (of_char y) :: 16 word)"
    by simp
  then have "(of_char x :: nat) = of_char y" by (simp only: unat_of_char)
  then show "x = y" by simp
qed

lemma js_eq_iff [simp]: "js a = js b \<longleftrightarrow> a = b"
  unfolding js_def using inj_js_unit by (rule inj_map_eq_map)

lemma js_append [simp]: "js a @ js b = js (a @ b)"
  by (simp add: js_def)

lemma js_Nil [simp]: "js [] = []" "js a = [] \<longleftrightarrow> a = []" "[] = js a \<longleftrightarrow> a = []"
  by (auto simp: js_def)

lemma trim_Nil [simp]: "trim [] = []"
  by (simp add: trim_def)

lemma trim_Hi: "trim (js ''Hi'') = js ''Hi''"
  by (simp add: trim_def js_def isWhiteSpace_def)

lemma trim_blank: "trim (js ''  '') = []"
  by (simp add: trim_def js_def isWhiteSpace_def)

lemma obfuscate_Hi: "obfuscate (js ''Hi'') = js ''SGk=''"
  by (simp add: obfuscate_def btoa_def js_def uriUnreserved_def isAlnum_def onto_def
      base64Char_def)

lemma deobfuscate_SGk: "deobfuscate (js ''SGk='') = js ''Hi''"
  by (simp add: deobfuscate_def atob_def js_def stripPadding_def isAsciiWhitespace_def
      base64Value_def escape_def escapeUnit_def escapeUnescaped_def isAlnum_def onto_def)

lemma example_tracking_eq:
  "example_tracking =
     example_start\<lparr>currentInput := Some 0, adapter := Some (TextAreaAdapter 0),
       inputListeners := [0], keydownListeners := [0],
       trace := [StorageGet (js ''draft_gemini.google.com/app'')]\<rparr>"
  by (simp add: example_defs model_defs)

section \<open>Invariants of the event loop\<close>

subsection \<open>Iterated handlers and runs\<close>

lemma funpow_frame: "(\<And>s. f (g s) = f s) \<Longrightarrow> f ((g ^^ n) s) = f s"
  by (induction n) simp_all

lemma funpow_invariant: "P s \<Longrightarrow> (\<And>s. P s \<Longrightarrow> P (g s)) \<Longrightarrow> P ((g ^^ n) s)"
  by (induction n) simp_all

lemma run_invariant: "P s \<Longrightarrow> (\<And>e s. P s \<Longrightarrow> P (step e s)) \<Longrightarrow> P (run s es)"
  by (induction es arbitrary: s) simp_all

subsection \<open>The click listener is attached once\<close>

lemma handleInput_clickListeners: "clickListeners (handleInput s) = clickListeners s"
  by (simp add: handleInput_def clearTimeout_def setTimeout_def Let_def split: option.splits)

lemma handleKeydown_clickListeners: "clickListeners (handleKeydown k sh s) = clickListeners s"
  by (simp add: handleKeydown_def clearTimeout_def setTimeout_def handleSendSuccess_def
      storageRemove_def Let_def split: option.splits)

lemma dispatchInput_clickListeners: "clickListeners (dispatchInput e s) = clickListeners s"
  unfolding dispatchInput_def by (rule funpow_frame) (rule handleInput_clickListeners)

lemma dispatchKeydown_clickListeners:
  "clickListeners (dispatchKeydown e k sh s) = clickListeners s"
  unfolding dispatchKeydown_def by (rule funpow_frame) (rule handleKeydown_clickListeners)

lemma click_listener_clickListeners: "clickListeners (click_listener s) = clickListeners s"
  by (simp add: click_listener_def setTimeout_def)

lemma restoreDraft_callback_clickListeners:
  "clickListeners (restoreDraft_callback r s) = clickListeners s"
  by (simp add: restoreDraft_callback_def showToast_def setTimeout_def setValue_def
      dispatchInput_clickListeners Let_def split: option.splits)

lemma timer_callback_clickListeners: "clickListeners (timer_callback act s) = clickListeners s"
  by (cases act)
    (simp_all add: saveDraft_def storageSet_def storageRemove_def click_check_def
      handleSendSuccess_def setTimeout_def Let_def split: option.splits)

lemma step_clickListeners: "clickListeners (step e s) = clickListeners s"
proof (cases e)
  case BodyMutation
  then show ?thesis
    by (simp add: observeDOM_callback_def observeURL_callback_def restoreDraft_def
        storageGet_def bindInput_def bindSubmit_def Let_def split: option.splits)
next
  case ClickEvent
  have "clickListeners ((click_listener ^^ n) s) = clickListeners s" for n
    by (rule funpow_frame) (rule click_listener_clickListeners)
  with ClickEvent show ?thesis by simp
next
  case (TimerFires i)
  then show ?thesis
    by (simp add: fireTimer_def timer_callback_clickListeners split: option.splits)
next
  case StorageGetReturns
  then show ?thesis
    by (simp add: storageGetReturns_def restoreDraft_callback_clickListeners
        split: list.splits)
qed (simp_all add: observeURL_callback_def dispatchInput_clickListeners
    dispatchKeydown_clickListeners)

lemma reachable_clickListeners: "clickListeners (run (bootstrap d l st) evs) = 1"
proof -
  have "clickListeners (run s evs) = clickListeners s" for s
    by (induction evs arbitrary: s) (simp_all add: step_clickListeners)
  then show ?thesis
    by (simp add: bootstrap_def init_def DraftManager_new_def observeDOM_def observeURL_def
        attachGlobalClickListener_def)
qed

subsection \<open>Timer identifiers\<close>

lemma timersOk_cong:
  "timers t = timers s \<Longrightarrow> nextTimer t = nextTimer s \<Longrightarrow> typingTimer t = typingTimer s \<Longrightarrow>
   timersOk t = timersOk s"
  by (simp add: timersOk_def)

lemma retired_cong:
  "timers t = timers s \<Longrightarrow> nextTimer t = nextTimer s \<Longrightarrow> retired i t = retired i s"
  by (simp add: retired_def timerIds_def)

lemma setTimeout_timersOk:
  "timersOk s \<Longrightarrow> \<not> isDebounce act \<Longrightarrow> timersOk (setTimeout act d s)"
  by (auto simp: timersOk_def setTimeout_def list_all_iff)

lemma setTimeout_retired: "retired i s \<Longrightarrow> retired i (setTimeout act d s)"
  by (auto simp: retired_def setTimeout_def timerIds_def)

lemma clearTimeout_timersOk: "timersOk s \<Longrightarrow> timersOk (clearTimeout t s)"
  by (auto simp: timersOk_def clearTimeout_def list_all_iff split: option.splits)

lemma clearTimeout_retired: "retired i s \<Longrightarrow> retired i (clearTimeout t s)"
  by (auto simp: retired_def clearTimeout_def timerIds_def split: option.splits)

lemma clearTimeout_typing_no_debounce:
  "timersOk s \<Longrightarrow> \<not> debouncePending (clearTimeout (typingTimer s) s)"
  by (auto simp: timersOk_def clearTimeout_def debouncePending_def list_all_iff list_ex_iff
      split: option.splits)

lemma handleInput_timersOk: "timersOk s \<Longrightarrow> timersOk (handleInput s)"
proof -
  assume ok: "timersOk s"
  let ?s1 = "clearTimeout (typingTimer s) s"
  have ok1: "timersOk ?s1" using ok by (rule clearTimeout_timersOk)
  have nd: "\<not> debouncePending ?s1" using ok by (rule clearTimeout_typing_no_debounce)
  show ?thesis
  proof (cases "isSubmitting s")
    case True
    then show ?thesis using ok by (simp add: handleInput_def)
  next
    case False
    show ?thesis
    proof (cases "adapter s")
      case None
      then have "handleInput s = ?s1\<lparr>trace := trace ?s1 @ [Uncaught TypeError]\<rparr>"
        using False by (simp add: handleInput_def clearTimeout_def Let_def split: option.splits)
      then show ?thesis using ok1 by (simp add: timersOk_def)
    next
      case (Some a)
      then have "handleInput s =
          (setTimeout (DebounceSave (getValue a (document ?s1))) DEBOUNCE_MS ?s1)
            \<lparr>typingTimer := Some (nextTimer ?s1)\<rparr>"
        using False by (simp add: handleInput_def clearTimeout_def Let_def split: option.splits)
      then show ?thesis using ok1 nd
        by (auto simp: timersOk_def setTimeout_def debouncePending_def list_all_iff list_ex_iff)
    qed
  qed
qed

lemma handleInput_retired: "retired i s \<Longrightarrow> retired i (handleInput s)"
  by (auto simp: handleInput_def Let_def retired_def timerIds_def setTimeout_def
      clearTimeout_def split: option.splits)


lemma storageRemove_timersOk: "timersOk (storageRemove k s) = timersOk s"
  by (simp add: storageRemove_def timersOk_def)

lemma storageRemove_retired: "retired i (storageRemove k s) = retired i s"
  by (simp add: storageRemove_def retired_def timerIds_def)

lemma handleKeydown_timersOk: "timersOk s \<Longrightarrow> timersOk (handleKeydown k sh s)"
proof -
  assume ok: "timersOk s"
  have "timersOk (s\<lparr>isSubmitting := True\<rparr>)" using ok by (simp add: timersOk_def)
  then have "timersOk (clearTimeout (typingTimer s) (s\<lparr>isSubmitting := True\<rparr>))"
    by (rule clearTimeout_timersOk)
  then show ?thesis using ok
    by (simp add: handleKeydown_def handleSendSuccess_def storageRemove_timersOk
        setTimeout_timersOk Let_def)
qed

lemma handleKeydown_retired: "retired i s \<Longrightarrow> retired i (handleKeydown k sh s)"
  by (auto simp: handleKeydown_def Let_def retired_def timerIds_def setTimeout_def
      clearTimeout_def handleSendSuccess_def storageRemove_def split: option.splits)

lemma dispatchInput_timersOk: "timersOk s \<Longrightarrow> timersOk (dispatchInput e s)"
  unfolding dispatchInput_def by (rule funpow_invariant) (simp_all add: handleInput_timersOk)

lemma dispatchInput_retired: "retired i s \<Longrightarrow> retired i (dispatchInput e s)"
  unfolding dispatchInput_def by (rule funpow_invariant) (simp_all add: handleInput_retired)

lemma dispatchKeydown_timersOk: "timersOk s \<Longrightarrow> timersOk (dispatchKeydown e k sh s)"
  unfolding dispatchKeydown_def
  by (rule funpow_invariant) (simp_all add: handleKeydown_timersOk)

lemma dispatchKeydown_retired: "retired i s \<Longrightarrow> retired i (dispatchKeydown e k sh s)"
  unfolding dispatchKeydown_def
  by (rule funpow_invariant) (simp_all add: handleKeydown_retired)

lemma setValue_timersOk: "timersOk s \<Longrightarrow> timersOk (setValue a v s)"
  unfolding setValue_def by (rule dispatchInput_timersOk) (simp add: timersOk_def)

lemma setValue_retired: "retired i s \<Longrightarrow> retired i (setValue a v s)"
  unfolding setValue_def by (rule dispatchInput_retired) (simp add: retired_def timerIds_def)

lemma showToast_timersOk: "timersOk s \<Longrightarrow> timersOk (showToast m s)"
  unfolding showToast_def by (rule setTimeout_timersOk) (simp_all add: timersOk_def)

lemma showToast_retired: "retired i s \<Longrightarrow> retired i (showToast m s)"
  unfolding showToast_def by (rule setTimeout_retired) (simp add: retired_def timerIds_def)

lemma restoreDraft_callback_timersOk: "timersOk s \<Longrightarrow> timersOk (restoreDraft_callback r s)"
  by (simp add: restoreDraft_callback_def showToast_timersOk setValue_timersOk Let_def
      split: option.splits)

lemma restoreDraft_callback_retired: "retired i s \<Longrightarrow> retired i (restoreDraft_callback r s)"
  by (simp add: restoreDraft_callback_def showToast_retired setValue_retired Let_def
      split: option.splits)

lemma saveDraft_timersOk: "timersOk (saveDraft text s) = timersOk s"
  by (simp add: saveDraft_def storageSet_def storageRemove_def timersOk_def Let_def)

lemma saveDraft_retired: "retired i (saveDraft text s) = retired i s"
  by (simp add: saveDraft_def storageSet_def storageRemove_def retired_def timerIds_def Let_def)

lemma click_check_timersOk: "timersOk (click_check s) = timersOk s"
  by (simp add: click_check_def handleSendSuccess_def storageRemove_timersOk Let_def
      split: option.splits)

lemma click_check_retired: "retired i (click_check s) = retired i s"
  by (simp add: click_check_def handleSendSuccess_def storageRemove_retired Let_def
      split: option.splits)

lemma timer_callback_timersOk: "timersOk s \<Longrightarrow> timersOk (timer_callback act s)"
  by (cases act)
    (simp_all add: saveDraft_timersOk click_check_timersOk setTimeout_timersOk,
      simp add: timersOk_def)

lemma timer_callback_retired: "retired i s \<Longrightarrow> retired i (timer_callback act s)"
  by (cases act)
    (simp_all add: saveDraft_retired click_check_retired setTimeout_retired,
      simp add: retired_def timerIds_def)

lemma fireTimer_timersOk: "timersOk s \<Longrightarrow> timersOk (fireTimer i s)"
proof -
  assume ok: "timersOk s"
  then have "timersOk (s\<lparr>timers := filter (\<lambda>x. fst x \<noteq> i) (timers s)\<rparr>)"
    by (auto simp: timersOk_def list_all_iff)
  then show ?thesis using ok
    by (simp add: fireTimer_def timer_callback_timersOk split: option.splits)
qed

lemma fireTimer_retired: "retired j s \<Longrightarrow> retired j (fireTimer i s)"
proof -
  assume r: "retired j s"
  then have "retired j (s\<lparr>timers := filter (\<lambda>x. fst x \<noteq> i) (timers s)\<rparr>)"
    by (auto simp: retired_def timerIds_def)
  then show ?thesis using r
    by (simp add: fireTimer_def timer_callback_retired split: option.splits)
qed

lemma observeDOM_callback_timers:
  "timers (observeDOM_callback s) = timers s \<and>
   nextTimer (observeDOM_callback s) = nextTimer s \<and>
   typingTimer (observeDOM_callback s) = typingTimer s"
  by (simp add: observeDOM_callback_def restoreDraft_def storageGet_def bindInput_def
      bindSubmit_def Let_def split: option.splits)

lemma observeURL_callback_timers:
  "timers (observeURL_callback s) = timers s \<and>
   nextTimer (observeURL_callback s) = nextTimer s \<and>
   typingTimer (observeURL_callback s) = typingTimer s"
  by (simp add: observeURL_callback_def)

lemma body_mutation_timers:
  "timers (step BodyMutation s) = timers s \<and>
   nextTimer (step BodyMutation s) = nextTimer s \<and>
   typingTimer (step BodyMutation s) = typingTimer s"
  by (simp add: observeDOM_callback_timers observeURL_callback_timers Let_def)

lemma step_timersOk: "timersOk s \<Longrightarrow> timersOk (step e s)"
proof (cases e)
  case BodyMutation
  assume "timersOk s"
  then show ?thesis unfolding BodyMutation
    using timersOk_cong [of "step BodyMutation s" s] body_mutation_timers [of s] by blast
next
  case ClickEvent
  assume ok: "timersOk s"
  have "timersOk ((click_listener ^^ n) s)" for n
    using ok by (rule funpow_invariant) (simp add: click_listener_def setTimeout_timersOk)
  with ClickEvent show ?thesis by simp
next
  case StorageGetReturns
  assume ok: "timersOk s"
  then have "timersOk (s\<lparr>pendingGets := rest\<rparr>)" for rest by (simp add: timersOk_def)
  with StorageGetReturns ok show ?thesis
    by (simp add: storageGetReturns_def restoreDraft_callback_timersOk split: list.splits)
qed (simp_all add: observeURL_callback_timers timersOk_cong [of "observeURL_callback s" s]
    dispatchInput_timersOk dispatchKeydown_timersOk fireTimer_timersOk, simp_all add: timersOk_def)

lemma step_retired: "retired i s \<Longrightarrow> retired i (step e s)"
proof (cases e)
  case BodyMutation
  assume "retired i s"
  then show ?thesis unfolding BodyMutation
    using retired_cong [of "step BodyMutation s" s] body_mutation_timers [of s] by blast
next
  case ClickEvent
  assume ok: "retired i s"
  have "retired i ((click_listener ^^ n) s)" for n
    using ok by (rule funpow_invariant) (simp add: click_listener_def setTimeout_retired)
  with ClickEvent show ?thesis by simp
next
  case StorageGetReturns
  assume ok: "retired i s"
  then have "retired i (s\<lparr>pendingGets := rest\<rparr>)" for rest
    by (simp add: retired_def timerIds_def)
  with StorageGetReturns ok show ?thesis
    by (simp add: storageGetReturns_def restoreDraft_callback_retired split: list.splits)
qed (simp_all add: observeURL_callback_timers retired_cong [of "observeURL_callback s" s]
    dispatchInput_retired dispatchKeydown_retired fireTimer_retired,
    simp_all add: retired_def timerIds_def)

lemma reachable_timersOk: "timersOk (run (bootstrap d l st) evs)"
proof (rule run_invariant)
  show "timersOk (bootstrap d l st)"
    by (simp add: timersOk_def bootstrap_def init_def DraftManager_new_def observeDOM_def
        observeURL_def attachGlobalClickListener_def)
qed (rule step_timersOk)

lemma run_retired: "retired i s \<Longrightarrow> retired i (run s evs)"
  by (rule run_invariant) (simp_all add: step_retired)

lemma retired_not_pending: "retired i s \<Longrightarrow> lookupTimer i s = None"
  by (simp add: retired_def timerIds_def lookupTimer_def map_of_eq_None_iff)

lemma retired_fireTimer: "retired i s \<Longrightarrow> fireTimer i s = s"
  by (simp add: fireTimer_def retired_not_pending)

subsection \<open>The submit key cancels the debounced save\<close>

lemma handleKeydown_submit:
  "handleKeydown (js ''Enter'') False s =
     s\<lparr>isSubmitting := True,
       timers := filter (\<lambda>x. Some (fst x) \<noteq> typingTimer s) (timers s) @
                   [(nextTimer s, now s + 2000, GuardRelease)],
       nextTimer := Suc (nextTimer s),
       storage := (storage s)(getStorageKey s := None),
       trace := trace s @ [StorageRemove (getStorageKey s)]\<rparr>"
  by (cases "typingTimer s")
    (simp_all add: handleKeydown_def clearTimeout_def handleSendSuccess_def storageRemove_def
      setTimeout_def getStorageKey_def Let_def)

lemma handleKeydown_no_debounce:
  "timersOk s \<Longrightarrow> \<not> debouncePending (handleKeydown (js ''Enter'') False s)"
  by (auto simp: handleKeydown_submit timersOk_def debouncePending_def list_all_iff list_ex_iff)

subsection \<open>No debounced save is pending while the guard is on\<close>

lemma guardOk_cong:
  "timers t = timers s \<Longrightarrow> nextTimer t = nextTimer s \<Longrightarrow> typingTimer t = typingTimer s \<Longrightarrow>
   isSubmitting t = isSubmitting s \<Longrightarrow> guardOk t = guardOk s"
  by (simp add: guardOk_def timersOk_def debouncePending_def)

lemma handleInput_guardOk: "guardOk s \<Longrightarrow> guardOk (handleInput s)"
proof -
  assume g: "guardOk s"
  then have ok: "timersOk (handleInput s)" by (simp add: guardOk_def handleInput_timersOk)
  show ?thesis
  proof (cases "isSubmitting s")
    case True
    then have "handleInput s = s" by (simp add: handleInput_def)
    with g show ?thesis by simp
  next
    case False
    then have "\<not> isSubmitting (handleInput s)"
      by (simp add: handleInput_def clearTimeout_def setTimeout_def Let_def
          split: option.splits)
    with ok show ?thesis by (simp add: guardOk_def)
  qed
qed

lemma handleKeydown_guardOk: "guardOk s \<Longrightarrow> guardOk (handleKeydown k sh s)"
proof (cases "k = js ''Enter'' \<and> \<not> sh")
  case True
  assume "guardOk s"
  then have ok: "timersOk s" by (simp add: guardOk_def)
  from True have e: "handleKeydown k sh s = handleKeydown (js ''Enter'') False s" by simp
  show ?thesis
    unfolding e guardOk_def
    using handleKeydown_timersOk [OF ok] handleKeydown_no_debounce [OF ok] by simp
next
  case False
  assume "guardOk s"
  with False show ?thesis by (auto simp: handleKeydown_def)
qed

lemma setTimeout_guardOk: "guardOk s \<Longrightarrow> \<not> isDebounce act \<Longrightarrow> guardOk (setTimeout act d s)"
  by (simp add: guardOk_def setTimeout_timersOk) (simp add: setTimeout_def debouncePending_def)

lemma restoreDraft_callback_guardOk: "guardOk s \<Longrightarrow> guardOk (restoreDraft_callback r s)"
proof -
  assume g: "guardOk s"
  have sv: "guardOk (setValue a v s)" for a v
    unfolding setValue_def dispatchInput_def
  proof (rule funpow_invariant)
    show "guardOk (s\<lparr>document := writeValue a v (document s),
        trace := trace s @ [SurfaceWrite (el a) v]\<rparr>)"
      using g by (simp add: guardOk_def timersOk_def debouncePending_def)
  qed (rule handleInput_guardOk)
  have "guardOk (showToast m (setValue a v s))" for m a v
  proof -
    have "guardOk ((setValue a v s)\<lparr>trace := trace (setValue a v s) @ [Toast m]\<rparr>)"
      using sv [of a v] by (simp add: guardOk_def timersOk_def debouncePending_def)
    then show ?thesis unfolding showToast_def by (rule setTimeout_guardOk) simp
  qed
  then show ?thesis using g
    by (simp add: restoreDraft_callback_def Let_def split: option.splits)
qed

lemma timer_callback_guardOk: "guardOk s \<Longrightarrow> guardOk (timer_callback act s)"
proof (cases act)
  case (DebounceSave x)
  assume "guardOk s"
  then show ?thesis unfolding DebounceSave
    by (simp add: guardOk_def saveDraft_timersOk)
      (simp add: saveDraft_def storageSet_def storageRemove_def debouncePending_def Let_def)
next
  case GuardRelease
  assume "guardOk s"
  then show ?thesis unfolding GuardRelease by (simp add: guardOk_def timersOk_def)
next
  case ClickCheck
  assume "guardOk s"
  then show ?thesis unfolding ClickCheck
    by (simp add: guardOk_def click_check_timersOk)
      (simp add: click_check_def handleSendSuccess_def storageRemove_def debouncePending_def
        Let_def split: option.splits)
next
  case ToastHide
  assume "guardOk s"
  then show ?thesis unfolding ToastHide by (simp add: setTimeout_guardOk)
next
  case ToastRemove
  assume "guardOk s"
  then show ?thesis unfolding ToastRemove by simp
qed

lemma step_guardOk: "guardOk s \<Longrightarrow> guardOk (step e s)"
proof (cases e)
  case BodyMutation
  have "isSubmitting (step BodyMutation s) = isSubmitting s"
    by (simp add: observeDOM_callback_def observeURL_callback_def restoreDraft_def
        storageGet_def bindInput_def bindSubmit_def Let_def split: option.splits)
  moreover assume "guardOk s"
  ultimately show ?thesis unfolding BodyMutation
    using guardOk_cong [of "step BodyMutation s" s] body_mutation_timers [of s] by blast
next
  case DocumentMutation
  assume "guardOk s"
  then show ?thesis unfolding DocumentMutation
    by (simp add: observeURL_callback_def guardOk_def timersOk_def debouncePending_def)
next
  case (InputEvent x)
  assume "guardOk s"
  then have "guardOk ((handleInput ^^ n) s)" for n
    by (rule funpow_invariant) (rule handleInput_guardOk)
  then show ?thesis unfolding InputEvent by (simp add: dispatchInput_def)
next
  case (KeydownEvent x k sh)
  assume "guardOk s"
  then have "guardOk ((handleKeydown k sh ^^ n) s)" for n
    by (rule funpow_invariant) (rule handleKeydown_guardOk)
  then show ?thesis unfolding KeydownEvent by (simp add: dispatchKeydown_def)
next
  case ClickEvent
  assume "guardOk s"
  then have "guardOk ((click_listener ^^ n) s)" for n
    by (rule funpow_invariant) (simp add: click_listener_def setTimeout_guardOk)
  then show ?thesis unfolding ClickEvent by simp
next
  case (TimerFires i)
  assume g: "guardOk s"
  then have "guardOk (s\<lparr>timers := filter (\<lambda>x. fst x \<noteq> i) (timers s)\<rparr>)"
    by (auto simp: guardOk_def timersOk_def debouncePending_def list_all_iff list_ex_iff)
  then show ?thesis unfolding TimerFires using g
    by (simp add: fireTimer_def timer_callback_guardOk split: option.splits)
next
  case StorageGetReturns
  assume g: "guardOk s"
  then have "guardOk (s\<lparr>pendingGets := rest\<rparr>)" for rest
    by (simp add: guardOk_def timersOk_def debouncePending_def)
  then show ?thesis unfolding StorageGetReturns using g
    by (simp add: storageGetReturns_def restoreDraft_callback_guardOk split: list.splits)
next
  case (Advance n)
  assume "guardOk s"
  then show ?thesis unfolding Advance
    by (simp add: guardOk_def timersOk_def debouncePending_def)
next
  case (PageSetsDocument d)
  assume "guardOk s"
  then show ?thesis unfolding PageSetsDocument
    by (simp add: guardOk_def timersOk_def debouncePending_def)
next
  case (PageSetsLocation l)
  assume "guardOk s"
  then show ?thesis unfolding PageSetsLocation
    by (simp add: guardOk_def timersOk_def debouncePending_def)
qed

lemma reachable_guardOk: "guardOk (run (bootstrap d l st) evs)"
proof (rule run_invariant)
  show "guardOk (bootstrap d l st)"
    by (simp add: guardOk_def timersOk_def bootstrap_def init_def DraftManager_new_def
        observeDOM_def observeURL_def attachGlobalClickListener_def)
qed (rule step_guardOk)

section \<open>The text transform\<close>

subsection \<open>Hexadecimal digits\<close>

lemma of_nat_unat16 [simp]: "(of_nat (unat c) :: 16 word) = c"
  by simp

lemma unat_hexDigit: "n < 16 \<Longrightarrow> unat (hexDigit n) = (if n < 10 then 48 + n else 55 + n)"
  unfolding hexDigit_def by (simp add: unat_of_nat del: of_nat_add)

lemma hexValue_hexDigit: "n < 16 \<Longrightarrow> hexValue (hexDigit n) = Some n"
  by (simp add: hexValue_def unat_hexDigit Let_def)

lemma hexDigit_not_u: "n < 16 \<Longrightarrow> hexDigit n \<noteq> 0x75"
proof
  assume "n < 16" "hexDigit n = 0x75"
  then have "hexValue (hexDigit n) = hexValue 0x75" by simp
  then show False using \<open>n < 16\<close> by (simp add: hexValue_hexDigit) (simp add: hexValue_def)
qed

lemma parseHex_percent:
  "b < 256 \<Longrightarrow> parseHex [hexDigit (b div 16), hexDigit (b mod 16)] = Some b"
  by (simp add: parseHex_def hexValue_hexDigit less_mult_imp_div_less)

lemma unescape_percent:
  assumes "b < 256"
  shows "unescape (percent b @ rest) = of_nat b # unescape rest"
proof -
  have "hexDigit (b div 16) \<noteq> 0x75"
    using assms by (intro hexDigit_not_u) (simp add: less_mult_imp_div_less)
  then show ?thesis
    using assms by (simp add: percent_def parseHex_percent)
qed

lemma unescape_percents:
  "list_all (\<lambda>b. b < 256) bs \<Longrightarrow>
   unescape (concat (map percent bs) @ rest) = map of_nat bs @ unescape rest"
  by (induction bs) (simp_all add: unescape_percent)


subsection \<open>UTF-8 octets\<close>

lemma utf8Encode_octets: "cp < 0x110000 \<Longrightarrow> list_all (\<lambda>b. b < 256) (utf8Encode cp)"
  by (simp add: utf8Encode_def) arith

lemma pair_range:
  "isLeadingSurrogate c \<Longrightarrow> isTrailingSurrogate d \<Longrightarrow>
   0x10000 \<le> UTF16SurrogatePairToCodePoint c d \<and> UTF16SurrogatePairToCodePoint c d < 0x110000"
  by (simp add: isLeadingSurrogate_def isTrailingSurrogate_def UTF16SurrogatePairToCodePoint_def)
    arith

lemma unat16_less: "unat (c :: 16 word) < 65536"
  using unsigned_less [of c, where ?'a = nat] by simp

lemma uriUnreserved_ascii:
  "uriUnreserved c \<Longrightarrow> unat c < 0x80 \<and> c \<noteq> 0x25"
  by (auto simp: uriUnreserved_def isAlnum_def Let_def)

lemma encode_then_unescape:
  "wellFormed T \<Longrightarrow>
   \<exists>u. encodeURIComponent T = Inr u \<and> unescape u = map of_nat (utf8Bytes T)"
proof (induction T rule: wellFormed.induct)
  case 1
  show ?case by simp
next
  case (2 c cs)
  show ?case
  proof (cases "isLeadingSurrogate c")
    case True
    with "2.prems" obtain d ds where cs: "cs = d # ds" and d: "isTrailingSurrogate d"
      and wf: "wellFormed ds"
      by (auto split: list.splits)
    from "2.IH"(1) [OF True cs wf] obtain u where u: "encodeURIComponent ds = Inr u"
      "unescape u = map of_nat (utf8Bytes ds)"
      by blast
    have nu: "\<not> uriUnreserved c"
      using True uriUnreserved_ascii [of c] by (auto simp: isLeadingSurrogate_def)
    have nt: "\<not> isTrailingSurrogate c"
      using True by (simp add: isLeadingSurrogate_def isTrailingSurrogate_def)
    let ?bs = "utf8Encode (UTF16SurrogatePairToCodePoint c d)"
    have bs: "list_all (\<lambda>b. b < 256) ?bs"
      using pair_range [OF True d] by (intro utf8Encode_octets) simp
    have "encodeURIComponent (c # cs) = Inr (concat (map percent ?bs) @ u)"
      using True nu nt d by (simp add: cs onto_def u)
    moreover have "unescape (concat (map percent ?bs) @ u) =
        map of_nat ?bs @ map of_nat (utf8Bytes ds)"
      using bs by (simp add: unescape_percents u)
    ultimately show ?thesis using True by (simp add: cs)
  next
    case False
    with "2.prems" have nt: "\<not> isTrailingSurrogate c" and wf: "wellFormed cs"
      by simp_all
    from "2.IH"(2) [OF False wf] obtain u where u: "encodeURIComponent cs = Inr u"
      "unescape u = map of_nat (utf8Bytes cs)"
      by blast
    show ?thesis
    proof (cases "uriUnreserved c")
      case True
      then have a: "unat c < 0x80" "c \<noteq> 0x25" using uriUnreserved_ascii by auto
      have "encodeURIComponent (c # cs) = Inr (c # u)"
        using True by (simp add: onto_def u)
      moreover have "unescape (c # u) = c # map of_nat (utf8Bytes cs)"
        using a by (simp add: u)
      moreover have "utf8Encode (unat c) = [unat c]"
        using a by (simp add: utf8Encode_def)
      ultimately show ?thesis using False by simp
    next
      case nu: False
      let ?bs = "utf8Encode (unat c)"
      have bs: "list_all (\<lambda>b. b < 256) ?bs"
        using unat16_less [of c] by (intro utf8Encode_octets) simp
      have "encodeURIComponent (c # cs) = Inr (concat (map percent ?bs) @ u)"
        using False nu nt by (simp add: onto_def u)
      moreover have "unescape (concat (map percent ?bs) @ u) =
          map of_nat ?bs @ map of_nat (utf8Bytes cs)"
        using bs by (simp add: unescape_percents u)
      ultimately show ?thesis using False by simp
    qed
  qed
qed

subsection \<open>Base64\<close>

lemma unat_base64Char:
  "n < 64 \<Longrightarrow> unat (base64Char n) =
     (if n < 26 then 65 + n else if n < 52 then 97 + (n - 26)
      else if n < 62 then 48 + (n - 52) else if n = 62 then 43 else 47)"
  unfolding base64Char_def by (simp add: unat_of_nat del: of_nat_add of_nat_diff)

lemma base64Value_base64Char: "n < 64 \<Longrightarrow> base64Value (base64Char n) = Some n"
  by (simp add: base64Value_def unat_base64Char Let_def; arith)

lemma base64Char_plain:
  assumes "n < 64"
  shows "base64Char n \<noteq> 0x3D \<and> \<not> isAsciiWhitespace (base64Char n)"
proof -
  have "unat (base64Char n) \<noteq> 61" "32 < unat (base64Char n)"
    using assms unat_base64Char [of n] by (auto split: if_splits)
  moreover have "unat c \<noteq> 61 \<Longrightarrow> c \<noteq> 0x3D" for c :: "16 word" by auto
  moreover have "32 < unat c \<Longrightarrow> \<not> isAsciiWhitespace c" for c :: "16 word"
    by (auto simp: isAsciiWhitespace_def)
  ultimately show ?thesis by blast
qed

lemma sextets_less: "list_all (\<lambda>b. b < 256) bs \<Longrightarrow> list_all (\<lambda>x. x < 64) (sextets bs)"
proof (induction bs rule: sextets.induct)
  case (1 a b c rest)
  then have "a < 256" "b < 256" "c < 256" by simp_all
  then have "a div 4 < 64 \<and> a mod 4 * 16 + b div 16 < 64 \<and> b mod 16 * 4 + c div 64 < 64 \<and>
      c mod 64 < 64"
    by arith
  with 1 show ?case by simp
next
  case (2 a b)
  then have "a < 256" "b < 256" by simp_all
  then have "a div 4 < 64 \<and> a mod 4 * 16 + b div 16 < 64 \<and> b mod 16 * 4 < 64"
    by arith
  then show ?case by simp
next
  case (3 a)
  then have "a < 256" by simp
  then have "a div 4 < 64 \<and> a mod 4 * 16 < 64" by arith
  then show ?case by simp
qed simp

lemma base64Encode_sextets:
  "\<exists>p\<le>2. base64Encode bs = map base64Char (sextets bs) @ replicate p 0x3D"
proof (induction bs rule: sextets.induct)
  case (1 a b c rest)
  then show ?case by auto
next
  case (2 a b)
  have "base64Encode [a, b] = map base64Char (sextets [a, b]) @ replicate 1 0x3D" by simp
  then show ?case by (intro exI [of _ 1]) simp
next
  case (3 a)
  have "base64Encode [a] = map base64Char (sextets [a]) @ replicate 2 0x3D"
    by (simp add: numeral_2_eq_2)
  then show ?case by (intro exI [of _ 2]) simp
next
  case 4
  show ?case by (intro exI [of _ 0]) simp
qed

lemma length_base64Encode: "length (base64Encode bs) mod 4 = 0"
  by (induction bs rule: sextets.induct) simp_all

lemma length_sextets: "length (sextets bs) mod 4 \<noteq> 1"
  by (induction bs rule: sextets.induct) simp_all

lemma base64Decode_quad:
  fixes a b c :: nat
  assumes "a < 256" "b < 256" "c < 256"
  shows "a div 4 * 4 + (a mod 4 * 16 + b div 16) div 16 = a"
    and "(a mod 4 * 16 + b div 16) mod 16 * 16 + (b mod 16 * 4 + c div 64) div 4 = b"
    and "(b mod 16 * 4 + c div 64) mod 4 * 64 + c mod 64 = c"
    and "(a mod 4 * 16 + b div 16) mod 16 * 16 + (b mod 16 * 4) div 4 = b"
    and "a div 4 * 4 + (a mod 4 * 16) div 16 = a"
proof -
  have "b div 16 < 16" "c div 64 < 4" using assms by arith+
  then show "a div 4 * 4 + (a mod 4 * 16 + b div 16) div 16 = a"
    and "(a mod 4 * 16 + b div 16) mod 16 * 16 + (b mod 16 * 4 + c div 64) div 4 = b"
    and "(b mod 16 * 4 + c div 64) mod 4 * 64 + c mod 64 = c"
    and "(a mod 4 * 16 + b div 16) mod 16 * 16 + (b mod 16 * 4) div 4 = b"
    and "a div 4 * 4 + (a mod 4 * 16) div 16 = a"
    by simp_all
qed

lemma base64Decode_sextets:
  "list_all (\<lambda>b. b < 256) bs \<Longrightarrow> base64Decode (sextets bs) = bs"
proof (induction bs rule: sextets.induct)
  case (1 a b c rest)
  then have "a < 256" "b < 256" "c < 256" by simp_all
  from base64Decode_quad(1-3) [OF this] 1 show ?case by simp
next
  case (2 a b)
  then have "a < 256" "b < 256" by simp_all
  from base64Decode_quad(1,4) [OF this this(2)] show ?case by simp
next
  case (3 a)
  then have "a < 256" by simp
  from base64Decode_quad(5) [OF this this this] show ?case by simp
qed simp

lemma dropWhile_none: "list_all (\<lambda>c. \<not> P c) zs \<Longrightarrow> dropWhile P zs = zs"
  by (cases zs) simp_all

lemma stripPadding_pad:
  assumes "p \<le> 2" and "length (xs @ replicate p 0x3D) mod 4 = 0"
    and "list_all (\<lambda>c. c \<noteq> 0x3D) xs"
  shows "stripPadding (xs @ replicate p 0x3D) = xs"
proof -
  let ?e = "0x3D :: 16 word"
  have t: "list_all (\<lambda>c. \<not> c = ?e) (take k (rev xs))" for k
  proof -
    have "set (take k (rev xs)) \<subseteq> set xs" using set_take_subset [of k "rev xs"] by simp
    with assms(3) show ?thesis unfolding list_all_iff by blast
  qed
  from assms(1) consider "p = 0" | "p = 1" | "p = 2" by linarith
  then have "rev (dropWhile (\<lambda>c. c = ?e) (take 2 (replicate p ?e @ rev xs)) @
      drop 2 (replicate p ?e @ rev xs)) = xs"
  proof cases
    case 1
    then show ?thesis by (simp add: dropWhile_none [OF t])
  next
    case 2
    have "take 2 (?e # rev xs) = ?e # take 1 (rev xs)" "drop 2 (?e # rev xs) = drop 1 (rev xs)"
      by (simp_all add: numeral_2_eq_2)
    with 2 show ?thesis by (simp add: dropWhile_none [OF t])
  next
    case 3
    have "replicate p ?e = [?e, ?e]" using 3 by (simp add: numeral_2_eq_2)
    then show ?thesis by (simp add: numeral_2_eq_2)
  qed
  then show ?thesis using assms(2) by (simp add: stripPadding_def)
qed

lemma map_base64Value_base64Char:
  "list_all (\<lambda>x. x < 64) xs \<Longrightarrow> map (\<lambda>c. the (base64Value c)) (map base64Char xs) = xs"
  by (induction xs) (simp_all add: base64Value_base64Char)

lemma map_unat_octets:
  "list_all (\<lambda>b. b < 256) bs \<Longrightarrow> map unat (map of_nat bs :: jsstring) = bs"
  by (induction bs) (simp_all add: unat_unit)

lemma atob_base64Encode:
  assumes "list_all (\<lambda>b. b < 256) bs"
  shows "atob (base64Encode bs) = Inr (map of_nat bs)"
proof -
  let ?X = "map base64Char (sextets bs)"
  obtain p where p: "p \<le> 2" "base64Encode bs = ?X @ replicate p 0x3D"
    using base64Encode_sextets [of bs] by blast
  have sx: "list_all (\<lambda>x. x < 64) (sextets bs)" using assms by (rule sextets_less)
  then have plain: "list_all (\<lambda>c. c \<noteq> 0x3D \<and> \<not> isAsciiWhitespace c) ?X"
    by (auto simp: list_all_iff base64Char_plain)
  have "\<not> isAsciiWhitespace 0x3D" by (simp add: isAsciiWhitespace_def)
  with plain have f: "filter (\<lambda>c. \<not> isAsciiWhitespace c) (base64Encode bs) = base64Encode bs"
    by (auto simp: p(2) list_all_iff filter_id_conv)
  have "length (?X @ replicate p 0x3D) mod 4 = 0"
    using length_base64Encode [of bs] by (simp only: p(2))
  moreover have "list_all (\<lambda>c. c \<noteq> 0x3D) ?X" using plain by (auto simp: list_all_iff)
  ultimately have s: "stripPadding (base64Encode bs) = ?X"
    using p(1) by (simp only: p(2) stripPadding_pad)
  have v: "map (\<lambda>c. the (base64Value c)) ?X = sextets bs"
    using sx by (rule map_base64Value_base64Char)
  have ok: "\<not> list_ex (\<lambda>c. base64Value c = None) ?X"
    using sx by (auto simp: list_all_iff list_ex_iff base64Value_base64Char)
  have "length ?X mod 4 \<noteq> 1" using length_sextets [of bs] by simp
  then have "atob (base64Encode bs) =
      Inr (map of_nat (base64Decode (map (\<lambda>c. the (base64Value c)) ?X)))"
    using ok by (simp add: atob_def f s Let_def del: map_map)
  then show ?thesis
    by (simp only: v base64Decode_sextets [OF assms])
qed

lemma btoa_octets:
  assumes "list_all (\<lambda>b. b < 256) bs"
  shows "btoa (map of_nat bs) = Inr (base64Encode bs)"
proof -
  have m: "map unat (map of_nat bs :: jsstring) = bs"
    using assms by (rule map_unat_octets)
  have "\<not> list_ex (\<lambda>c. 255 < unat c) (map of_nat bs :: jsstring)"
    using assms by (auto simp: list_all_iff list_ex_iff unat_unit)
  then have "btoa (map of_nat bs) = Inr (base64Encode (map unat (map of_nat bs :: jsstring)))"
    by (simp add: btoa_def del: map_map)
  then show ?thesis by (simp only: m)
qed

subsection \<open>UTF-8 decoding of what was encoded\<close>

lemma radix64: "(q::nat) div 64 * (64 * k) + q mod 64 * k = q * k"
proof -
  have "q * k = (q div 64 * 64 + q mod 64) * k" by simp
  also have "\<dots> = q div 64 * (64 * k) + q mod 64 * k"
    by (simp only: add_mult_distrib mult.assoc)
  finally show ?thesis by simp
qed

lemma utf8_three: "cp div 4096 * 4096 + cp div 64 mod 64 * 64 + cp mod 64 = (cp::nat)"
proof -
  have "cp div 4096 = cp div 64 div 64" by (simp add: div_mult2_eq [symmetric])
  then have "cp div 4096 * 4096 + cp div 64 mod 64 * 64 = cp div 64 * 64"
    using radix64 [of "cp div 64" 64] by simp
  then show ?thesis by simp
qed

lemma utf8_four:
  "cp div 262144 * 262144 + cp div 4096 mod 64 * 4096 + cp div 64 mod 64 * 64 + cp mod 64 =
   (cp::nat)"
proof -
  have "cp div 262144 = cp div 4096 div 64" by (simp add: div_mult2_eq [symmetric])
  then have "cp div 262144 * 262144 + cp div 4096 mod 64 * 4096 = cp div 4096 * 4096"
    using radix64 [of "cp div 4096" 4096] by simp
  then show ?thesis using utf8_three [of cp] by simp
qed

lemma utf8_roundtrip:
  assumes "0x80 \<le> cp" and "cp < 0x110000" and "\<not> (0xD800 \<le> cp \<and> cp \<le> 0xDFFF)"
  shows "\<exists>b bs. utf8Encode cp = b # bs \<and> leadingOnes b = Suc (length bs) \<and>
           1 \<le> length bs \<and> length bs \<le> 3 \<and> utf8Decode (b # bs) = Some cp \<and>
           list_all (\<lambda>x. 0x80 \<le> x \<and> x < 256) (b # bs)"
proof -
  have "x mod 64 < 128" for x :: nat
  proof -
    have "x mod 64 < 64" by simp
    then show ?thesis by linarith
  qed
  then have m: "cp mod 64 < 128" "cp div 64 mod 64 < 128" "cp div 4096 mod 64 < 128"
    by blast+
  consider "cp < 0x800" | "0x800 \<le> cp" "cp < 0x10000" | "0x10000 \<le> cp" by linarith
  then show ?thesis
  proof cases
    case 1
    then have "cp div 64 < 32" by (simp add: less_mult_imp_div_less)
    then show ?thesis
      using assms(1) 1 m by (simp add: utf8Encode_def leadingOnes_def isContinuation_def)
  next
    case 2
    then have "cp div 4096 < 16" by (simp add: less_mult_imp_div_less)
    then show ?thesis
      using assms 2 m
      by (simp add: utf8Encode_def leadingOnes_def isContinuation_def utf8_three)
  next
    case 3
    have "cp div 262144 < 5" using assms(2) by (simp add: less_mult_imp_div_less)
    then show ?thesis
      using assms 3 m
      by (simp add: utf8Encode_def leadingOnes_def isContinuation_def utf8_four)
  qed
qed

subsection \<open>\<open>escape\<close> and \<open>decodeURIComponent\<close>\<close>

lemma escapeUnescaped_ascii: "escapeUnescaped c \<Longrightarrow> unat c < 0x80 \<and> c \<noteq> 0x25"
  by (auto simp: escapeUnescaped_def isAlnum_def Let_def)

lemma escapeUnit_high:
  assumes "0x80 \<le> b" and "b < 256"
  shows "escapeUnit (of_nat b) = percent b"
proof -
  have u: "unat (of_nat b :: 16 word) = b" using assms(2) by (simp add: unat_unit)
  then have "\<not> escapeUnescaped (of_nat b)"
    using escapeUnescaped_ascii [of "of_nat b"] assms(1) by auto
  then show ?thesis using assms(2) by (simp add: escapeUnit_def u)
qed

lemma escape_high:
  "list_all (\<lambda>x. 0x80 \<le> x \<and> x < 256) bs \<Longrightarrow>
   escape (map of_nat bs @ s) = concat (map percent bs) @ escape s"
  by (induction bs) (simp_all add: escape_def escapeUnit_high)

lemma continuationOctets_percents:
  "list_all (\<lambda>b. b < 256) bs \<Longrightarrow>
   continuationOctets (length bs) (concat (map percent bs) @ rest) = Some bs"
  by (induction bs) (simp_all add: percent_def parseHex_percent)

lemma drop_percents: "drop (3 * length bs) (concat (map percent bs) @ rest) = rest"
proof -
  have "length (concat (map percent bs)) = 3 * length bs"
    by (induction bs) (simp_all add: percent_def)
  then show ?thesis by simp
qed

lemma decode_percent_ascii:
  assumes "b < 0x80"
  shows "decodeURIComponent (percent b @ rest) = onto [of_nat b] (decodeURIComponent rest)"
  using assms by (simp add: percent_def parseHex_percent leadingOnes_def)

lemma decode_multibyte:
  assumes "list_all (\<lambda>x. x < 256) (b # bs)" and "leadingOnes b = Suc (length bs)"
    and "1 \<le> length bs" and "length bs \<le> 3" and "utf8Decode (b # bs) = Some v"
  shows "decodeURIComponent (concat (map percent (b # bs)) @ rest) =
           onto (UTF16EncodeCodePoint v) (decodeURIComponent rest)"
proof -
  have b: "b < 256" and bs: "list_all (\<lambda>x. x < 256) bs" using assms(1) by simp_all
  have ne: "bs \<noteq> []" using assms(3) by auto
  have "decodeURIComponent (percent b @ concat (map percent bs) @ rest) =
      onto (UTF16EncodeCodePoint v) (decodeURIComponent rest)"
    using assms(2,4,5) b ne
    by (simp add: percent_def parseHex_percent continuationOctets_percents [OF bs]
        drop_percents Let_def del: drop_append)
  then show ?thesis by simp
qed

lemma escape_append: "escape (xs @ ys) = escape xs @ escape ys"
  by (simp add: escape_def)

lemma UTF16Encode_unit: "UTF16EncodeCodePoint (unat c) = [c]"
  using unat16_less [of c] by (simp add: UTF16EncodeCodePoint_def)

lemma UTF16Encode_pair:
  assumes "isLeadingSurrogate c" and "isTrailingSurrogate d"
  shows "UTF16EncodeCodePoint (UTF16SurrogatePairToCodePoint c d) = [c, d]"
proof -
  obtain x where x: "unat c = 0xD800 + x"
    using assms(1) le_iff_add unfolding isLeadingSurrogate_def by blast
  obtain y where y: "unat d = 0xDC00 + y"
    using assms(2) le_iff_add unfolding isTrailingSurrogate_def by blast
  have "y < 0x400" using assms(2) y by (simp add: isTrailingSurrogate_def)
  then have "(UTF16SurrogatePairToCodePoint c d - 0x10000) div 0x400 + 0xD800 = unat c"
    and "(UTF16SurrogatePairToCodePoint c d - 0x10000) mod 0x400 + 0xDC00 = unat d"
    by (simp_all add: UTF16SurrogatePairToCodePoint_def x y)
  moreover have "\<not> UTF16SurrogatePairToCodePoint c d \<le> 0xFFFF"
    using pair_range [OF assms] by simp
  ultimately show ?thesis
    by (simp only: UTF16EncodeCodePoint_def if_False of_nat_unat16)
qed

lemma decode_code_point:
  assumes "0x80 \<le> cp" and "cp < 0x110000" and "\<not> (0xD800 \<le> cp \<and> cp \<le> 0xDFFF)"
  shows "decodeURIComponent (escape (map of_nat (utf8Encode cp) @ s)) =
           onto (UTF16EncodeCodePoint cp) (decodeURIComponent (escape s))"
proof -
  from utf8_roundtrip [OF assms] obtain b bs where e: "utf8Encode cp = b # bs"
    and n: "leadingOnes b = Suc (length bs)" "1 \<le> length bs" "length bs \<le> 3"
    and d: "utf8Decode (b # bs) = Some cp"
    and h: "list_all (\<lambda>x. 0x80 \<le> x \<and> x < 256) (b # bs)"
    by blast
  from h have o: "list_all (\<lambda>x. x < 256) (b # bs)" by (auto simp: list_all_iff)
  have "escape (map of_nat (b # bs) @ s) = concat (map percent (b # bs)) @ escape s"
    using h by (rule escape_high)
  then show ?thesis
    by (simp only: e decode_multibyte [OF o n d])
qed

lemma decode_unit:
  assumes "\<not> isLeadingSurrogate c" and "\<not> isTrailingSurrogate c"
  shows "decodeURIComponent (escape (map of_nat (utf8Encode (unat c)) @ s)) =
           onto [c] (decodeURIComponent (escape s))"
proof (cases "unat c < 0x80")
  case True
  then have e: "utf8Encode (unat c) = [unat c]" by (simp add: utf8Encode_def)
  show ?thesis
  proof (cases "escapeUnescaped c")
    case u: True
    then have "c \<noteq> 0x25" using escapeUnescaped_ascii by blast
    then show ?thesis using u by (simp add: e escape_def escapeUnit_def)
  next
    case u: False
    have "unat c < 256" using True by simp
    then have "escape (c # s) = percent (unat c) @ escape s"
      using u by (simp add: escape_def escapeUnit_def)
    then show ?thesis using decode_percent_ascii [OF True] by (simp add: e)
  qed
next
  case False
  have "\<not> (0xD800 \<le> unat c \<and> unat c \<le> 0xDFFF)"
    using assms by (auto simp: isLeadingSurrogate_def isTrailingSurrogate_def)
  moreover have "unat c < 0x110000" using unat16_less [of c] by simp
  ultimately show ?thesis
    using False decode_code_point [of "unat c" s] by (simp add: UTF16Encode_unit)
qed

lemma decode_pair:
  assumes "isLeadingSurrogate c" and "isTrailingSurrogate d"
  shows "decodeURIComponent
           (escape (map of_nat (utf8Encode (UTF16SurrogatePairToCodePoint c d)) @ s)) =
           onto [c, d] (decodeURIComponent (escape s))"
  using pair_range [OF assms] decode_code_point [of "UTF16SurrogatePairToCodePoint c d" s]
  by (simp add: UTF16Encode_pair [OF assms])

lemma utf8Bytes_octets: "wellFormed T \<Longrightarrow> list_all (\<lambda>b. b < 256) (utf8Bytes T)"
proof (induction T rule: wellFormed.induct)
  case 1
  show ?case by simp
next
  case (2 c cs)
  show ?case
  proof (cases "isLeadingSurrogate c")
    case True
    with "2.prems" obtain d ds where cs: "cs = d # ds" and d: "isTrailingSurrogate d"
      and wf: "wellFormed ds"
      by (auto split: list.splits)
    have "list_all (\<lambda>b. b < 256) (utf8Encode (UTF16SurrogatePairToCodePoint c d))"
      using pair_range [OF True d] by (intro utf8Encode_octets) simp
    then show ?thesis using True "2.IH"(1) [OF True cs wf] by (simp add: cs)
  next
    case False
    with "2.prems" have wf: "wellFormed cs" by simp
    have "list_all (\<lambda>b. b < 256) (utf8Encode (unat c))"
      using unat16_less [of c] by (intro utf8Encode_octets) simp
    then show ?thesis using False "2.IH"(2) [OF False wf] by simp
  qed
qed

lemma escape_then_decode:
  "wellFormed T \<Longrightarrow> decodeURIComponent (escape (map of_nat (utf8Bytes T))) = Inr T"
proof (induction T rule: wellFormed.induct)
  case 1
  show ?case by (simp add: escape_def)
next
  case (2 c cs)
  show ?case
  proof (cases "isLeadingSurrogate c")
    case True
    with "2.prems" obtain d ds where cs: "cs = d # ds" and d: "isTrailingSurrogate d"
      and wf: "wellFormed ds"
      by (auto split: list.splits)
    show ?thesis
      using True "2.IH"(1) [OF True cs wf] decode_pair [OF True d, of "map of_nat (utf8Bytes ds)"]
      by (simp add: cs onto_def)
  next
    case False
    with "2.prems" have nt: "\<not> isTrailingSurrogate c" and wf: "wellFormed cs" by simp_all
    show ?thesis
      using False "2.IH"(2) [OF False wf] decode_unit [OF False nt, of "map of_nat (utf8Bytes cs)"]
      by (simp add: onto_def)
  qed
qed

lemma obfuscate_wellFormed:
  assumes "wellFormed T"
  shows "obfuscate T = base64Encode (utf8Bytes T)"
proof -
  from encode_then_unescape [OF assms] obtain u where "encodeURIComponent T = Inr u"
    "unescape u = map of_nat (utf8Bytes T)"
    by blast
  then show ?thesis
    by (simp add: obfuscate_def btoa_octets [OF utf8Bytes_octets [OF assms]])
qed

subsection \<open>Strings with an unpaired surrogate\<close>

lemma surrogate_reserved:
  "isLeadingSurrogate c \<or> isTrailingSurrogate c \<Longrightarrow> \<not> uriUnreserved c"
  using uriUnreserved_ascii [of c] by (auto simp: isLeadingSurrogate_def isTrailingSurrogate_def)

lemma encode_illFormed: "\<not> wellFormed T \<Longrightarrow> encodeURIComponent T = Inl URIError"
proof (induction T rule: wellFormed.induct)
  case 1
  then show ?case by simp
next
  case (2 c cs)
  show ?case
  proof (cases "isLeadingSurrogate c")
    case True
    then have nt: "\<not> isTrailingSurrogate c"
      by (simp add: isLeadingSurrogate_def isTrailingSurrogate_def)
    show ?thesis
    proof (cases cs)
      case Nil
      then show ?thesis using True nt surrogate_reserved [of c] by simp
    next
      case (Cons d ds)
      show ?thesis
      proof (cases "isTrailingSurrogate d")
        case d: True
        with "2.prems" True Cons have "\<not> wellFormed ds" by simp
        from "2.IH"(1) [OF True Cons this] show ?thesis
          using True nt d surrogate_reserved [of c] by (simp add: Cons onto_def)
      next
        case False
        then show ?thesis using True nt surrogate_reserved [of c] by (simp add: Cons)
      qed
    qed
  next
    case False
    show ?thesis
    proof (cases "isTrailingSurrogate c")
      case True
      then show ?thesis using False surrogate_reserved [of c] by simp
    next
      case nt: False
      with "2.prems" False have "\<not> wellFormed cs" by simp
      from "2.IH"(2) [OF False this] show ?thesis
        using False nt by (simp add: onto_def)
    qed
  qed
qed

lemma illFormed_surrogate:
  "\<not> wellFormed T \<Longrightarrow> \<exists>c\<in>set T. isLeadingSurrogate c \<or> isTrailingSurrogate c"
  by (induction T rule: wellFormed.induct) (auto split: if_splits list.splits)

lemma in_dropWhile: "x \<in> set xs \<Longrightarrow> \<not> P x \<Longrightarrow> x \<in> set (dropWhile P xs)"
  by (induction xs) auto

lemma in_stripPadding:
  assumes "x \<in> set s" and "x \<noteq> 0x3D"
  shows "x \<in> set (stripPadding s)"
proof -
  have "x \<in> set (take 2 (rev s)) \<union> set (drop 2 (rev s))"
    using assms(1) set_append [of "take 2 (rev s)" "drop 2 (rev s)"] by simp
  then have "x \<in> set (dropWhile (\<lambda>c. c = 0x3D) (take 2 (rev s))) \<union> set (drop 2 (rev s))"
    using assms(2) in_dropWhile [of x "take 2 (rev s)" "\<lambda>c. c = 0x3D"] by blast
  then show ?thesis using assms(1) by (auto simp: stripPadding_def)
qed

lemma atob_surrogate:
  assumes "c \<in> set T" and "isLeadingSurrogate c \<or> isTrailingSurrogate c"
  shows "atob T = Inl InvalidCharacterError"
proof -
  have big: "0xD800 \<le> unat c"
    using assms(2) by (auto simp: isLeadingSurrogate_def isTrailingSurrogate_def)
  then have v: "base64Value c = None" by (simp add: base64Value_def Let_def)
  have "\<not> isAsciiWhitespace c" using big by (auto simp: isAsciiWhitespace_def)
  then have "c \<in> set (filter (\<lambda>c. \<not> isAsciiWhitespace c) T)" using assms(1) by simp
  moreover have "c \<noteq> 0x3D" using big by auto
  ultimately have "c \<in> set (stripPadding (filter (\<lambda>c. \<not> isAsciiWhitespace c) T))"
    by (rule in_stripPadding)
  with v have "list_ex (\<lambda>c. base64Value c = None)
      (stripPadding (filter (\<lambda>c. \<not> isAsciiWhitespace c) T))"
    unfolding list_ex_iff by blast
  then show ?thesis by (simp add: atob_def Let_def)
qed

lemma roundtrip_illFormed:
  assumes "\<not> wellFormed T"
  shows "obfuscate T = T \<and> deobfuscate (obfuscate T) = [] \<and> T \<noteq> []"
proof -
  have o: "obfuscate T = T" by (simp add: obfuscate_def encode_illFormed [OF assms])
  from illFormed_surrogate [OF assms] obtain c where "c \<in> set T"
    "isLeadingSurrogate c \<or> isTrailingSurrogate c"
    by blast
  then have "atob T = Inl InvalidCharacterError" by (rule atob_surrogate)
  then have "deobfuscate T = []" by (simp add: deobfuscate_def)
  moreover have "T \<noteq> []" using assms by auto
  ultimately show ?thesis by (simp add: o)
qed

section \<open>Saving a draft\<close>

text \<open>
  Claim C3. \<open>saveDraft\<close> writes a record only for a text that is not empty after
  trimming: it then stores the obfuscated text under the key \<open>draft_\<close> followed by the
  host name and the path, and makes no other storage call. For a text that is empty or
  all white space it removes the record of that key instead.
\<close>

theorem saveDraft_writes_or_removes:
  "(trim text \<noteq> [] \<longrightarrow>
      storage (saveDraft text s) =
        (storage s)(js ''draft_'' @ hostname (location s) @ pathname (location s) \<mapsto>
          obfuscate text) \<and>
      trace (saveDraft text s) =
        trace s @ [StorageSet (js ''draft_'' @ hostname (location s) @ pathname (location s))
                     (obfuscate text)]) \<and>
   (trim text = [] \<longrightarrow>
      storage (saveDraft text s) =
        (storage s)(js ''draft_'' @ hostname (location s) @ pathname (location s) := None) \<and>
      trace (saveDraft text s) =
        trace s @ [StorageRemove (js ''draft_'' @ hostname (location s) @ pathname (location s))])"
  by (auto simp: saveDraft_def storageSet_def storageRemove_def getStorageKey_def
      STORAGE_PREFIX_def Let_def)

theorem saveDraft_writes_or_removes_witness:
  "trim (js ''Hi'') \<noteq> [] \<and>
   storage (saveDraft (js ''Hi'') example_tracking) (js ''draft_gemini.google.com/app'') =
     Some (js ''SGk='') \<and>
   trim (js ''  '') = [] \<and>
   storage (saveDraft (js ''  '') example_tracking) (js ''draft_gemini.google.com/app'') = None"
  using saveDraft_writes_or_removes [of "js ''Hi''" example_tracking]
    saveDraft_writes_or_removes [of "js ''  ''" example_tracking]
  by (simp add: trim_Hi trim_blank obfuscate_Hi example_tracking_eq example_start_def
      example_location_def bootstrap_def init_def DraftManager_new_def observeDOM_def
      observeURL_def attachGlobalClickListener_def)

section \<open>Restoration and the surface\<close>

text \<open>
  Claim C2. When the text the bound adapter reads from its element is not empty after
  trimming, a restoration attempt does not write to the element: the callback of the
  storage read leaves the document and the trace of effects as they were (so \<open>setValue\<close>
  is not called), whatever the stored value is, and so does the event that delivers the
  read; the request itself touches neither the document nor any surface.
\<close>

theorem restoreDraft_keeps_nonempty_surface:
  assumes "adapter s = Some a" and "trim (getValue a (document s)) \<noteq> []"
  shows "document (restoreDraft_callback r s) = document s \<and>
         trace (restoreDraft_callback r s) = trace s \<and>
         document (step StorageGetReturns s) = document s \<and>
         trace (step StorageGetReturns s) = trace s \<and>
         document (restoreDraft s) = document s \<and>
         filter isSurfaceWrite (trace (restoreDraft s)) = filter isSurfaceWrite (trace s)"
proof -
  have ne: "getValue a (document s) \<noteq> []" using assms(2) by auto
  have cb: "restoreDraft_callback r t = t"
    if "adapter t = Some a" "document t = document s" for t r
    using that assms(2) ne by (simp add: restoreDraft_callback_def Let_def split: option.splits)
  have "restoreDraft_callback r (s\<lparr>pendingGets := rest\<rparr>) = s\<lparr>pendingGets := rest\<rparr>"
    for r rest
    by (rule cb) (simp_all add: assms(1))
  then have "document (storageGetReturns s) = document s \<and> trace (storageGetReturns s) = trace s"
    by (simp add: storageGetReturns_def split: list.splits)
  moreover have "restoreDraft_callback r s = s" by (rule cb) (simp_all add: assms(1))
  ultimately show ?thesis by (simp add: restoreDraft_def storageGet_def)
qed

lemma example_restoring_eq:
  "example_restoring =
     (bootstrap example_dom example_location example_stored)
       \<lparr>currentInput := Some 0, adapter := Some (TextAreaAdapter 0),
        inputListeners := [0], keydownListeners := [0],
        pendingGets := [(js ''draft_gemini.google.com/app'', Some (js ''SGk=''))],
        trace := [StorageGet (js ''draft_gemini.google.com/app'')]\<rparr>"
  by (simp add: example_defs model_defs)

theorem restoreDraft_keeps_nonempty_surface_witness:
  "adapter example_restoring = Some (TextAreaAdapter 0) \<and>
   trim (getValue (TextAreaAdapter 0) (document example_restoring)) \<noteq> [] \<and>
   pendingGets example_restoring = [(js ''draft_gemini.google.com/app'', Some (js ''SGk=''))] \<and>
   document (step StorageGetReturns example_restoring) = example_dom \<and>
   trace (step StorageGetReturns example_restoring) =
     [StorageGet (js ''draft_gemini.google.com/app'')]"
  using restoreDraft_keeps_nonempty_surface [of example_restoring "TextAreaAdapter 0"]
  by (simp add: example_restoring_eq bootstrap_def init_def DraftManager_new_def observeDOM_def
      observeURL_def attachGlobalClickListener_def example_dom_def example_textarea_def trim_Hi)

lemma handleInput_store:
  "storage (handleInput s) = storage s \<and> storeWrites (handleInput s) = storeWrites s"
  by (simp add: handleInput_def clearTimeout_def setTimeout_def storeWrites_def Let_def
      split: option.splits)

lemma dispatchInput_store:
  "storage (dispatchInput e s) = storage s \<and> storeWrites (dispatchInput e s) = storeWrites s"
proof -
  have "storage ((handleInput ^^ n) s) = storage s" for n
    by (rule funpow_frame) (simp add: handleInput_store)
  moreover have "storeWrites ((handleInput ^^ n) s) = storeWrites s" for n
    by (rule funpow_frame) (simp add: handleInput_store)
  ultimately show ?thesis by (simp add: dispatchInput_def)
qed

lemma setValue_store:
  "storage (setValue a v s) = storage s \<and> storeWrites (setValue a v s) = storeWrites s"
  by (simp add: setValue_def dispatchInput_store) (simp add: storeWrites_def)

lemma showToast_store:
  "storage (showToast m s) = storage s \<and> storeWrites (showToast m s) = storeWrites s"
  by (simp add: showToast_def setTimeout_def storeWrites_def)

lemma restoreDraft_callback_store:
  "storage (restoreDraft_callback r s) = storage s \<and>
   storeWrites (restoreDraft_callback r s) = storeWrites s"
  by (simp add: restoreDraft_callback_def showToast_store setValue_store Let_def
      split: option.splits)

text \<open>
  Claim C10. A restoration attempt only reads the store. The request adds one \<open>get\<close> to
  the trace; neither the request nor the callback, on any stored value and any state,
  issues a \<open>set\<close> or a \<open>remove\<close>, and the contents of the store are unchanged. This
  covers the callback that restores the text (and thereby dispatches an input event),
  the one that finds the surface non-empty, the one that finds no record and the one
  whose record does not decode.
\<close>

theorem restoration_only_reads_store:
  "storage (restoreDraft s) = storage s \<and>
   storeWrites (restoreDraft s) = storeWrites s \<and>
   trace (restoreDraft s) = trace s @ [StorageGet (getStorageKey s)] \<and>
   storage (restoreDraft_callback r s) = storage s \<and>
   storeWrites (restoreDraft_callback r s) = storeWrites s \<and>
   storage (step StorageGetReturns s) = storage s \<and>
   storeWrites (step StorageGetReturns s) = storeWrites s"
proof -
  have "storage (storageGetReturns s) = storage s \<and>
        storeWrites (storageGetReturns s) = storeWrites s"
    by (simp add: storageGetReturns_def restoreDraft_callback_store split: list.splits)
      (simp add: storeWrites_def)
  then show ?thesis
    by (simp add: restoreDraft_callback_store)
      (simp add: restoreDraft_def storageGet_def storeWrites_def)
qed


lemma example_restoring_empty_eq:
  "example_restoring_empty =
     (bootstrap example_dom_empty example_location example_stored)
       \<lparr>currentInput := Some 0, adapter := Some (ContentEditableAdapter 0),
        inputListeners := [0], keydownListeners := [0],
        pendingGets := [(js ''draft_gemini.google.com/app'', Some (js ''SGk=''))],
        trace := [StorageGet (js ''draft_gemini.google.com/app'')]\<rparr>"
  by (simp add: example_defs model_defs)

theorem restoration_only_reads_store_witness:
  "innerText (elements (document (step StorageGetReturns example_restoring_empty)) 0) = js ''Hi'' \<and>
   storage (step StorageGetReturns example_restoring_empty) = example_stored \<and>
   storeWrites (step StorageGetReturns example_restoring_empty) = []"
  using restoration_only_reads_store [of example_restoring_empty]
  by (simp add: example_restoring_empty_eq bootstrap_def init_def DraftManager_new_def
      observeDOM_def observeURL_def attachGlobalClickListener_def example_dom_def
      example_dom_empty_def example_editor_def deobfuscate_SGk storageGetReturns_def
      restoreDraft_callback_def setValue_def showToast_def setTimeout_def dispatchInput_def
      listenersOnPath_def handleInput_def clearTimeout_def storeWrites_def Let_def)

section \<open>The click heuristic\<close>

text \<open>
  Claim C7. In every state reached from the bootstrap a document click schedules one
  check 500 ms later and does nothing else: the submission flag and the store are
  untouched. When the check runs with an adapter bound whose text is empty after
  trimming, it does what the submit key does to the store, \<open>handleSendSuccess\<close>: the
  record of the current key is removed. The check never changes the submission flag and
  never creates or cancels a timer, so it neither sets nor extends the guard window.
\<close>

theorem click_heuristic_clears_without_guard:
  "step ClickEvent (run (bootstrap d l st) evs) =
     setTimeout ClickCheck 500 (run (bootstrap d l st) evs) \<and>
   timers (setTimeout ClickCheck 500 s) = timers s @ [(nextTimer s, now s + 500, ClickCheck)] \<and>
   isSubmitting (setTimeout ClickCheck 500 s) = isSubmitting s \<and>
   storage (setTimeout ClickCheck 500 s) = storage s \<and>
   (adapter s = Some a \<and> trim (getValue a (document s)) = [] \<longrightarrow>
      timer_callback ClickCheck s = handleSendSuccess s \<and>
      storage (timer_callback ClickCheck s) =
        (storage s)(js ''draft_'' @ hostname (location s) @ pathname (location s) := None) \<and>
      trace (timer_callback ClickCheck s) =
        trace s @ [StorageRemove (js ''draft_'' @ hostname (location s) @ pathname (location s))]) \<and>
   isSubmitting (timer_callback ClickCheck s) = isSubmitting s \<and>
   timers (timer_callback ClickCheck s) = timers s \<and>
   nextTimer (timer_callback ClickCheck s) = nextTimer s"
proof -
  have "step ClickEvent (run (bootstrap d l st) evs) =
      setTimeout ClickCheck 500 (run (bootstrap d l st) evs)"
    by (simp add: reachable_clickListeners click_listener_def)
  moreover have "isSubmitting (click_check s) = isSubmitting s \<and>
      timers (click_check s) = timers s \<and> nextTimer (click_check s) = nextTimer s"
    by (simp add: click_check_def handleSendSuccess_def storageRemove_def Let_def
        split: option.splits)
  moreover have "click_check s = handleSendSuccess s"
    if "adapter s = Some a" "trim (getValue a (document s)) = []"
    using that by (simp add: click_check_def Let_def)
  ultimately show ?thesis
    by (simp add: setTimeout_def)
      (simp add: handleSendSuccess_def storageRemove_def getStorageKey_def STORAGE_PREFIX_def)
qed


lemma example_start_eq:
  "example_start =
     \<lparr>currentInput = None, adapter = None, typingTimer = None, isSubmitting = False,
      globalClickListenerAttached = True, lastUrl = js ''https://gemini.google.com/app'',
      domObserving = True, urlObserving = True, document = example_dom,
      location = example_location, storage = Map.empty, now = 0, timers = [],
      nextTimer = 0, inputListeners = [], keydownListeners = [], clickListeners = 1,
      pendingGets = [], trace = []\<rparr>"
  by (simp add: example_start_def bootstrap_def init_def DraftManager_new_def observeDOM_def
      observeURL_def attachGlobalClickListener_def example_location_def)

theorem click_heuristic_clears_without_guard_witness:
  "adapter example_restoring_empty = Some (ContentEditableAdapter 0) \<and>
   trim (getValue (ContentEditableAdapter 0) (document example_restoring_empty)) = [] \<and>
   storage example_restoring_empty (js ''draft_gemini.google.com/app'') = Some (js ''SGk='') \<and>
   timers (step ClickEvent (run (bootstrap example_dom example_location Map.empty) [])) =
     [(0, 500, ClickCheck)] \<and>
   storage (timer_callback ClickCheck example_restoring_empty)
     (js ''draft_gemini.google.com/app'') = None \<and>
   \<not> isSubmitting (timer_callback ClickCheck example_restoring_empty)"
  using click_heuristic_clears_without_guard
    [of example_dom example_location Map.empty "[]" example_restoring_empty
      "ContentEditableAdapter 0"]
  by (simp add: example_restoring_empty_eq bootstrap_def init_def DraftManager_new_def
      observeDOM_def observeURL_def attachGlobalClickListener_def example_dom_def
      example_dom_empty_def example_editor_def example_location_def example_stored_def
      setTimeout_def handleSendSuccess_def storageRemove_def getStorageKey_def
      STORAGE_PREFIX_def click_listener_def)

section \<open>Navigation\<close>

text \<open>
  Claim C8. When the URL observer sees a changed address it clears \<open>currentInput\<close> and
  makes no storage call: store, trace and pending reads are unchanged. On the next pass
  of the DOM observer, whatever the document has become, an element that matches the
  selector and for which an adapter exists is acquired again, and the restoration read is
  issued for the key of the new path, \<open>draft_\<close> followed by the current host name and path.
\<close>

theorem url_change_clears_surface_only:
  assumes "href (location s) \<noteq> lastUrl s"
  shows "currentInput (observeURL_callback s) = None \<and>
     storage (observeURL_callback s) = storage s \<and>
     trace (observeURL_callback s) = trace s \<and>
     pendingGets (observeURL_callback s) = pendingGets s \<and>
     (selectors (hostname (location s)) = Some sel \<and> querySelector d' sel = Some box \<and>
      AdapterFactory_create (elements d' box) box = Some a \<longrightarrow>
        currentInput (observeDOM_callback ((observeURL_callback s)\<lparr>document := d'\<rparr>)) = Some box \<and>
        adapter (observeDOM_callback ((observeURL_callback s)\<lparr>document := d'\<rparr>)) = Some a \<and>
        pendingGets (observeDOM_callback ((observeURL_callback s)\<lparr>document := d'\<rparr>)) =
          pendingGets s @
            [(js ''draft_'' @ hostname (location s) @ pathname (location s),
              storage s (js ''draft_'' @ hostname (location s) @ pathname (location s)))] \<and>
        trace (observeDOM_callback ((observeURL_callback s)\<lparr>document := d'\<rparr>)) =
          trace s @ [StorageGet (js ''draft_'' @ hostname (location s) @ pathname (location s))] \<and>
        storage (observeDOM_callback ((observeURL_callback s)\<lparr>document := d'\<rparr>)) = storage s)"
  using assms
  by (simp add: observeURL_callback_def observeDOM_callback_def restoreDraft_def storageGet_def
      bindInput_def bindSubmit_def getStorageKey_def STORAGE_PREFIX_def Let_def)

lemma example_navigated_eq:
  "example_navigated = example_tracking\<lparr>location := example_location2\<rparr>"
  by (simp add: example_navigated_def)

theorem url_change_clears_surface_only_witness:
  "href (location example_navigated) \<noteq> lastUrl example_navigated \<and>
   currentInput example_navigated = Some 0 \<and>
   currentInput (step BodyMutation example_navigated) = None \<and>
   storage (step BodyMutation example_navigated) = storage example_navigated \<and>
   currentInput (step BodyMutation (step BodyMutation example_navigated)) = Some 0 \<and>
   pendingGets (step BodyMutation (step BodyMutation example_navigated)) =
     [(js ''draft_gemini.google.com/app/2'', None)]"
  using url_change_clears_surface_only
    [of example_navigated "js ''.ql-editor, textarea, [contenteditable='true']''" example_dom 0
      "TextAreaAdapter 0"]
  by (simp add: example_navigated_eq example_tracking_eq example_start_eq example_location_def
      example_location2_def example_dom_def example_textarea_def selectors_def
      AdapterFactory_create_def observeURL_callback_def observeDOM_callback_def
      restoreDraft_def storageGet_def bindInput_def bindSubmit_def getStorageKey_def
      STORAGE_PREFIX_def Let_def)


lemma example_pending_eq:
  "example_pending =
     example_tracking\<lparr>typingTimer := Some 0, timers := [(0, 500, DebounceSave (js ''Hi''))],
       nextTimer := 1\<rparr>"
  by (simp add: example_pending_def example_tracking_eq example_start_eq example_dom_def
      example_textarea_def dispatchInput_def listenersOnPath_def handleInput_def
      clearTimeout_def setTimeout_def DEBOUNCE_MS_def Let_def)

lemma example_guarded_eq:
  "example_guarded =
     example_tracking\<lparr>typingTimer := Some 0, isSubmitting := True,
       timers := [(1, 2000, GuardRelease)], nextTimer := 2,
       trace := [StorageGet (js ''draft_gemini.google.com/app''),
                 StorageRemove (js ''draft_gemini.google.com/app'')]\<rparr>"
  by (simp add: example_guarded_def example_pending_eq example_tracking_eq example_start_eq
      example_dom_def example_location_def dispatchKeydown_def listenersOnPath_def
      handleKeydown_def handleSendSuccess_def storageRemove_def getStorageKey_def
      STORAGE_PREFIX_def clearTimeout_def setTimeout_def Let_def)

section \<open>Surface changes\<close>

text \<open>
  Claim C5 as stated fails. After Enter was pressed (guard on), or after an input event
  armed the debounce timer, the page makes another element the first match; the DOM
  observer binds it with a fresh adapter, and the guard is still on, respectively the
  debounced save still pending: the controller is not in \<open>TRACKING\<close>.
\<close>

theorem surface_change_not_always_tracking:
  "currentInput (step (PageSetsDocument example_dom2) example_guarded) = Some 0 \<and>
   currentInput (step BodyMutation (step (PageSetsDocument example_dom2) example_guarded)) = Some 1 \<and>
   adapter (step BodyMutation (step (PageSetsDocument example_dom2) example_guarded)) =
     Some (ContentEditableAdapter 1) \<and>
   isSubmitting (step BodyMutation (step (PageSetsDocument example_dom2) example_guarded)) \<and>
   \<not> isTRACKING (step BodyMutation (step (PageSetsDocument example_dom2) example_guarded)) \<and>
   adapter (step BodyMutation (step (PageSetsDocument example_dom2) example_pending)) =
     Some (ContentEditableAdapter 1) \<and>
   debouncePending (step BodyMutation (step (PageSetsDocument example_dom2) example_pending)) \<and>
   \<not> isTRACKING (step BodyMutation (step (PageSetsDocument example_dom2) example_pending))"
  by (simp add: example_guarded_eq example_pending_eq example_tracking_eq example_start_eq
      example_dom2_def example_dom_def example_editor_def example_location_def selectors_def
      AdapterFactory_create_def observeURL_callback_def observeDOM_callback_def
      restoreDraft_def storageGet_def bindInput_def bindSubmit_def getStorageKey_def
      STORAGE_PREFIX_def isTRACKING_def debouncePending_def Let_def)

text \<open>
  Claim C5, amended. A surface change whose adapter resolution succeeds binds the new
  adapter and at once issues the restoration read for the current key; it leaves the
  timers and the submission flag as they were. So the controller is in \<open>TRACKING\<close>
  afterwards exactly when no debounced save was pending and the guard was off before.
\<close>

theorem surface_change_binds_and_restores:
  assumes "selectors (hostname (location s)) = Some sel"
    and "querySelector (document s) sel = Some box"
    and "currentInput s \<noteq> Some box"
    and "AdapterFactory_create (elements (document s) box) box = Some a"
  shows "adapter (observeDOM_callback s) = Some a \<and>
     currentInput (observeDOM_callback s) = Some box \<and>
     pendingGets (observeDOM_callback s) =
       pendingGets s @ [(getStorageKey s, storage s (getStorageKey s))] \<and>
     trace (observeDOM_callback s) = trace s @ [StorageGet (getStorageKey s)] \<and>
     timers (observeDOM_callback s) = timers s \<and>
     typingTimer (observeDOM_callback s) = typingTimer s \<and>
     isSubmitting (observeDOM_callback s) = isSubmitting s \<and>
     isTRACKING (observeDOM_callback s) = (\<not> debouncePending s \<and> \<not> isSubmitting s)"
  using assms
  by (simp add: observeDOM_callback_def restoreDraft_def storageGet_def bindInput_def
      bindSubmit_def getStorageKey_def isTRACKING_def debouncePending_def Let_def)

theorem surface_change_binds_and_restores_witness:
  "selectors (hostname (location example_start)) =
     Some (js ''.ql-editor, textarea, [contenteditable='true']'') \<and>
   querySelector (document example_start)
     (js ''.ql-editor, textarea, [contenteditable='true']'') = Some 0 \<and>
   currentInput example_start \<noteq> Some 0 \<and>
   AdapterFactory_create (elements (document example_start) 0) 0 = Some (TextAreaAdapter 0) \<and>
   adapter (observeDOM_callback example_start) = Some (TextAreaAdapter 0) \<and>
   pendingGets (observeDOM_callback example_start) = [(js ''draft_gemini.google.com/app'', None)] \<and>
   isTRACKING (observeDOM_callback example_start)"
  using surface_change_binds_and_restores
    [of example_start "js ''.ql-editor, textarea, [contenteditable='true']''" 0
      "TextAreaAdapter 0"]
  by (simp add: example_start_eq example_location_def example_dom_def example_textarea_def
      selectors_def AdapterFactory_create_def getStorageKey_def STORAGE_PREFIX_def
      debouncePending_def)

lemma example_rebound_eq:
  "example_rebound =
     example_tracking\<lparr>currentInput := Some 1, adapter := Some (ContentEditableAdapter 1),
       document := example_dom2, inputListeners := [0, 1], keydownListeners := [0, 1],
       pendingGets := [(js ''draft_gemini.google.com/app'', None)],
       trace := [StorageGet (js ''draft_gemini.google.com/app''),
                 StorageGet (js ''draft_gemini.google.com/app'')]\<rparr>"
  by (simp add: example_rebound_def example_tracking_eq example_start_eq
      example_dom2_def example_dom_def example_editor_def example_location_def selectors_def
      AdapterFactory_create_def observeURL_callback_def observeDOM_callback_def
      restoreDraft_def storageGet_def bindInput_def bindSubmit_def getStorageKey_def
      STORAGE_PREFIX_def Let_def)

lemma example_renavigated_eq:
  "example_renavigated =
     example_tracking\<lparr>lastUrl := js ''https://gemini.google.com/app/2'',
       location := example_location2, inputListeners := [0, 0], keydownListeners := [0, 0],
       pendingGets := [(js ''draft_gemini.google.com/app/2'', None)],
       trace := [StorageGet (js ''draft_gemini.google.com/app''),
                 StorageGet (js ''draft_gemini.google.com/app/2'')]\<rparr>"
  by (simp add: example_renavigated_def example_tracking_eq example_start_eq
      example_dom_def example_textarea_def example_location_def example_location2_def
      selectors_def AdapterFactory_create_def observeURL_callback_def observeDOM_callback_def
      restoreDraft_def storageGet_def bindInput_def bindSubmit_def getStorageKey_def
      STORAGE_PREFIX_def Let_def)

text \<open>
  Claim C9 as stated fails. The text area (element 0) is bound; then the editor (element
  1) becomes the first match and is bound, while the text area stays in the document.
  An input event at the text area still arms a save (of the editor's text), and Enter
  pressed in it still sets the guard and removes the record: the listeners bound through
  the previous adapter are live. Likewise, when the page moves to another path and keeps
  its text area, the text area is bound a second time, through a second adapter, and one
  Enter runs the handler of each binding: two removals, two release timers.
\<close>

theorem old_bindings_stay_live:
  "adapter example_tracking = Some (TextAreaAdapter 0) \<and>
   adapter example_rebound = Some (ContentEditableAdapter 1) \<and>
   currentInput example_rebound = Some 1 \<and>
   timers example_rebound = [] \<and>
   timers (step (InputEvent 0) example_rebound) = [(0, 500, DebounceSave [])] \<and>
   \<not> isSubmitting example_rebound \<and>
   isSubmitting (step (KeydownEvent 0 (js ''Enter'') False) example_rebound) \<and>
   trace (step (KeydownEvent 0 (js ''Enter'') False) example_rebound) =
     trace example_rebound @ [StorageRemove (js ''draft_gemini.google.com/app'')] \<and>
   adapter example_renavigated = Some (TextAreaAdapter 0) \<and>
   keydownListeners example_renavigated = [0, 0] \<and>
   trace (step (KeydownEvent 0 (js ''Enter'') False) example_renavigated) =
     trace example_renavigated @
       [StorageRemove (js ''draft_gemini.google.com/app/2''),
        StorageRemove (js ''draft_gemini.google.com/app/2'')] \<and>
   timers (step (KeydownEvent 0 (js ''Enter'') False) example_renavigated) =
     [(0, 2000, GuardRelease), (1, 2000, GuardRelease)]"
  by (simp add: example_rebound_eq example_renavigated_eq example_location2_def
      example_tracking_eq example_start_eq
      example_dom2_def example_dom_def example_editor_def example_location_def
      dispatchInput_def dispatchKeydown_def listenersOnPath_def handleInput_def
      handleKeydown_def handleSendSuccess_def storageRemove_def getStorageKey_def
      STORAGE_PREFIX_def clearTimeout_def setTimeout_def DEBOUNCE_MS_def Let_def)

text \<open>
  Claim C9, amended. The controller holds at most one adapter and one surface at a time:
  a surface change whose resolution succeeds replaces both references by the new element
  and its adapter. The listeners bound before are not detached: the new element is added
  to the lists of input and keydown listeners, and an event at any element runs as many
  handlers as before, and one more when the new element is on its path.
\<close>

theorem rebinding_replaces_reference_keeps_listeners:
  assumes "selectors (hostname (location s)) = Some sel"
    and "querySelector (document s) sel = Some box"
    and "currentInput s \<noteq> Some box"
    and "AdapterFactory_create (elements (document s) box) box = Some a"
  shows "currentInput (observeDOM_callback s) = Some box \<and>
     adapter (observeDOM_callback s) = Some a \<and>
     el a = box \<and>
     inputListeners (observeDOM_callback s) = inputListeners s @ [box] \<and>
     keydownListeners (observeDOM_callback s) = keydownListeners s @ [box] \<and>
     listenersOnPath (inputListeners (observeDOM_callback s)) (document (observeDOM_callback s)) e =
       listenersOnPath (inputListeners s) (document s) e +
         (if box \<in> set (e # ancestors (document s) e) then 1 else 0) \<and>
     listenersOnPath (keydownListeners (observeDOM_callback s)) (document (observeDOM_callback s)) e =
       listenersOnPath (keydownListeners s) (document s) e +
         (if box \<in> set (e # ancestors (document s) e) then 1 else 0)"
proof -
  have "el a = box"
    using assms(4) by (auto simp: AdapterFactory_create_def split: if_splits)
  then show ?thesis
    using assms
    by (simp add: observeDOM_callback_def restoreDraft_def storageGet_def bindInput_def
        bindSubmit_def listenersOnPath_def Let_def)
qed

theorem rebinding_replaces_reference_keeps_listeners_witness:
  "selectors (hostname (location (step (PageSetsDocument example_dom2) example_tracking))) =
     Some (js ''.ql-editor, textarea, [contenteditable='true']'') \<and>
   querySelector (document (step (PageSetsDocument example_dom2) example_tracking))
     (js ''.ql-editor, textarea, [contenteditable='true']'') = Some 1 \<and>
   currentInput (step (PageSetsDocument example_dom2) example_tracking) = Some 0 \<and>
   currentInput (observeDOM_callback (step (PageSetsDocument example_dom2) example_tracking)) = Some 1 \<and>
   adapter (observeDOM_callback (step (PageSetsDocument example_dom2) example_tracking)) =
     Some (ContentEditableAdapter 1) \<and>
   inputListeners (observeDOM_callback (step (PageSetsDocument example_dom2) example_tracking)) =
     [0, 1] \<and>
   listenersOnPath
     (inputListeners (observeDOM_callback (step (PageSetsDocument example_dom2) example_tracking)))
     (document (observeDOM_callback (step (PageSetsDocument example_dom2) example_tracking))) 0 = 1"
  using rebinding_replaces_reference_keeps_listeners
    [of "step (PageSetsDocument example_dom2) example_tracking"
      "js ''.ql-editor, textarea, [contenteditable='true']''" 1 "ContentEditableAdapter 1" 0]
  by (simp add: example_tracking_eq example_start_eq example_location_def example_dom2_def
      example_dom_def example_editor_def selectors_def AdapterFactory_create_def
      listenersOnPath_def observeDOM_callback_def restoreDraft_def storageGet_def
      bindInput_def bindSubmit_def getStorageKey_def STORAGE_PREFIX_def Let_def)


lemma handleKeydown_release_scheduled:
  "timersOk s \<Longrightarrow>
   lookupTimer (nextTimer s) (handleKeydown (js ''Enter'') False s) =
     Some (now s + 2000, GuardRelease)"
proof -
  assume ok: "timersOk s"
  have "map_of (filter (\<lambda>x. Some (fst x) \<noteq> typingTimer s) (timers s)) (nextTimer s) = None"
    using ok by (auto simp: timersOk_def list_all_iff map_of_eq_None_iff)
  then show ?thesis
    by (simp add: handleKeydown_submit lookupTimer_def map_add_def)
qed

section \<open>The submit key\<close>

text \<open>
  Claim C4. One run of \<open>handleKeydown\<close> on Enter without shift sets the submission flag,
  cancels the timer \<open>typingTimer\<close> names, removes the record of the current key and
  schedules the release of the flag 2000 ms later (the release callback clears the
  flag). In every state reached from the bootstrap no debounced save is pending after
  it, and the release is the timer it created.
\<close>

theorem submit_key_guards_cancels_clears:
  "isSubmitting (handleKeydown (js ''Enter'') False s) \<and>
   timers (handleKeydown (js ''Enter'') False s) =
     filter (\<lambda>x. Some (fst x) \<noteq> typingTimer s) (timers s) @
       [(nextTimer s, now s + 2000, GuardRelease)] \<and>
   storage (handleKeydown (js ''Enter'') False s) =
     (storage s)(js ''draft_'' @ hostname (location s) @ pathname (location s) := None) \<and>
   trace (handleKeydown (js ''Enter'') False s) =
     trace s @ [StorageRemove (js ''draft_'' @ hostname (location s) @ pathname (location s))] \<and>
   \<not> isSubmitting (timer_callback GuardRelease s) \<and>
   \<not> debouncePending (handleKeydown (js ''Enter'') False (run (bootstrap d l st) evs)) \<and>
   lookupTimer (nextTimer (run (bootstrap d l st) evs))
     (handleKeydown (js ''Enter'') False (run (bootstrap d l st) evs)) =
     Some (now (run (bootstrap d l st) evs) + 2000, GuardRelease)"
  using reachable_timersOk [of d l st evs]
  by (simp add: handleKeydown_no_debounce handleKeydown_release_scheduled)
    (simp add: handleKeydown_submit getStorageKey_def STORAGE_PREFIX_def)

lemma example_pending_run:
  "run (bootstrap example_dom example_location Map.empty)
     [BodyMutation, StorageGetReturns, InputEvent 0] = example_pending"
  by (simp add: example_pending_def example_tracking_def example_start_def)

theorem submit_key_guards_cancels_clears_witness:
  "timers example_pending = [(0, 500, DebounceSave (js ''Hi''))] \<and>
   debouncePending example_pending \<and>
   isSubmitting (handleKeydown (js ''Enter'') False example_pending) \<and>
   timers (handleKeydown (js ''Enter'') False example_pending) = [(1, 2000, GuardRelease)] \<and>
   \<not> debouncePending (handleKeydown (js ''Enter'') False example_pending) \<and>
   trace (handleKeydown (js ''Enter'') False example_pending) =
     [StorageGet (js ''draft_gemini.google.com/app''),
      StorageRemove (js ''draft_gemini.google.com/app'')]"
  using submit_key_guards_cancels_clears
    [of example_pending example_dom example_location Map.empty
      "[BodyMutation, StorageGetReturns, InputEvent 0]"]
  by (simp only: example_pending_run)
    (simp add: example_pending_eq example_tracking_eq example_start_eq example_location_def
      debouncePending_def)

lemma handleKeydown_retires:
  "typingTimer s = Some i \<Longrightarrow> i < nextTimer s \<Longrightarrow>
   retired i (handleKeydown (js ''Enter'') False s)"
  by (auto simp: handleKeydown_submit retired_def timerIds_def)

lemma pending_debounce_is_typingTimer:
  "timersOk s \<Longrightarrow> lookupTimer i s = Some (due, DebounceSave text) \<Longrightarrow>
   typingTimer s = Some i \<and> i < nextTimer s"
proof -
  assume ok: "timersOk s" and l: "lookupTimer i s = Some (due, DebounceSave text)"
  from l have "(i, due, DebounceSave text) \<in> set (timers s)"
    by (simp add: lookupTimer_def map_of_SomeD)
  with ok show ?thesis by (auto simp: timersOk_def list_all_iff)
qed

lemma submit_key_retires:
  assumes "timersOk s" and "lookupTimer i s = Some (due, DebounceSave text)"
    and "0 < listenersOnPath (keydownListeners s) (document s) e"
  shows "retired i (step (KeydownEvent e (js ''Enter'') False) s)"
proof -
  obtain n where n: "listenersOnPath (keydownListeners s) (document s) e = Suc n"
    using assms(3) by (cases "listenersOnPath (keydownListeners s) (document s) e") auto
  have "retired i (handleKeydown (js ''Enter'') False s)"
    using pending_debounce_is_typingTimer [OF assms(1,2)] by (simp add: handleKeydown_retires)
  then have "retired i ((handleKeydown (js ''Enter'') False ^^ n)
      (handleKeydown (js ''Enter'') False s))"
    by (rule funpow_invariant) (rule handleKeydown_retired)
  then show ?thesis
    by (simp add: dispatchKeydown_def n funpow_swap1)
qed

section \<open>The submission guard\<close>

text \<open>
  Claim C1. While the submission flag is set, a debounce timer that fires makes no
  storage call: the store and the trace of effects are as before. And in every state
  reached from the bootstrap, a debounced save that is pending when a submit-key event
  reaches a bound listener never runs afterwards, whatever events follow: its timer is
  never pending again and firing it changes nothing; in particular it does not run in the
  2000 ms after the key press. The check of the flag in the timer's callback is a second
  line of defence: in the states reached from the bootstrap no debounced save is pending
  while the flag is set.
\<close>

theorem guard_suppresses_debounced_save:
  "(isSubmitting s \<and> lookupTimer i s = Some (due, DebounceSave text) \<longrightarrow>
      storage (step (TimerFires i) s) = storage s \<and>
      trace (step (TimerFires i) s) = trace s) \<and>
   (lookupTimer j (run (bootstrap d l st) evs0) = Some (due', DebounceSave text') \<and>
    0 < listenersOnPath (keydownListeners (run (bootstrap d l st) evs0))
          (document (run (bootstrap d l st) evs0)) e \<longrightarrow>
      lookupTimer j
        (run (step (KeydownEvent e (js ''Enter'') False) (run (bootstrap d l st) evs0)) evs) = None \<and>
      step (TimerFires j)
        (run (step (KeydownEvent e (js ''Enter'') False) (run (bootstrap d l st) evs0)) evs) =
        run (step (KeydownEvent e (js ''Enter'') False) (run (bootstrap d l st) evs0)) evs) \<and>
   (isSubmitting (run (bootstrap d l st) evs0) \<longrightarrow>
      \<not> debouncePending (run (bootstrap d l st) evs0))"
proof -
  have "retired j (run (step (KeydownEvent e (js ''Enter'') False) (run (bootstrap d l st) evs0)) evs)"
    if "lookupTimer j (run (bootstrap d l st) evs0) = Some (due', DebounceSave text')"
      and "0 < listenersOnPath (keydownListeners (run (bootstrap d l st) evs0))
          (document (run (bootstrap d l st) evs0)) e"
    using that by (intro run_retired submit_key_retires reachable_timersOk)
  moreover have "isSubmitting (run (bootstrap d l st) evs0) \<longrightarrow>
      \<not> debouncePending (run (bootstrap d l st) evs0)"
    using reachable_guardOk [of d l st evs0] by (simp add: guardOk_def)
  ultimately show ?thesis
    by (auto simp: retired_not_pending retired_fireTimer fireTimer_def)
qed

theorem guard_suppresses_debounced_save_witness:
  "isSubmitting (example_pending\<lparr>isSubmitting := True\<rparr>) \<and>
   lookupTimer 0 (example_pending\<lparr>isSubmitting := True\<rparr>) = Some (500, DebounceSave (js ''Hi'')) \<and>
   trace (step (TimerFires 0) (step (Advance 600) (example_pending\<lparr>isSubmitting := True\<rparr>))) =
     trace example_pending \<and>
   lookupTimer 0 example_pending = Some (500, DebounceSave (js ''Hi'')) \<and>
   0 < listenersOnPath (keydownListeners example_pending) (document example_pending) 0 \<and>
   step (KeydownEvent 0 (js ''Enter'') False) example_pending = example_guarded \<and>
   lookupTimer 0 (run example_guarded [Advance 600]) = None \<and>
   run example_guarded [Advance 600, TimerFires 0] = run example_guarded [Advance 600]"
  using guard_suppresses_debounced_save
    [of "step (Advance 600) (example_pending\<lparr>isSubmitting := True\<rparr>)" 0 500 "js ''Hi''"
      0 example_dom example_location Map.empty "[BodyMutation, StorageGetReturns, InputEvent 0]"
      500 "js ''Hi''" 0 "[Advance 600]"]
  by (simp only: example_pending_run)
    (simp add: example_guarded_def example_pending_eq example_tracking_eq example_start_eq
      example_dom_def lookupTimer_def listenersOnPath_def)

section \<open>The round trip of the text transform\<close>

text \<open>
  Claim C6 as stated fails: decoding first and encoding after does not give the text
  back. A text that is not Base64 decodes to the empty text, which encodes to the empty
  text; and a Base64 text written without padding decodes, but encodes to the padded
  form.
\<close>

theorem encode_after_decode_differs:
  "deobfuscate (js ''a'') = [] \<and>
   obfuscate (deobfuscate (js ''a'')) \<noteq> js ''a'' \<and>
   deobfuscate (js ''SGk'') = js ''Hi'' \<and>
   obfuscate (deobfuscate (js ''SGk'')) = js ''SGk='' \<and>
   obfuscate (deobfuscate (js ''SGk'')) \<noteq> js ''SGk''"
proof -
  have a: "deobfuscate (js ''a'') = []"
    by (simp add: deobfuscate_def atob_def js_def stripPadding_def isAsciiWhitespace_def)
  have b: "obfuscate [] = []"
    by (simp add: obfuscate_def btoa_def)
  have c: "deobfuscate (js ''SGk'') = js ''Hi''"
    by (simp add: deobfuscate_def atob_def js_def stripPadding_def isAsciiWhitespace_def
        base64Value_def escape_def escapeUnit_def escapeUnescaped_def isAlnum_def onto_def)
  show ?thesis by (simp add: a b c obfuscate_Hi)
qed

text \<open>
  Claim C6, amended. Encoding first and decoding after gives the text back: for every
  string \<open>T\<close> without an unpaired surrogate, \<open>deobfuscate (obfuscate T) = T\<close>; so the
  identity of the claim holds for the texts that \<open>obfuscate\<close> produces from such strings.
  For a string with an unpaired surrogate \<open>obfuscate\<close> falls back to the string itself,
  which \<open>deobfuscate\<close> turns into the empty text.
\<close>

theorem decode_after_encode:
  "(wellFormed T \<longrightarrow>
      deobfuscate (obfuscate T) = T \<and>
      obfuscate (deobfuscate (obfuscate T)) = obfuscate T) \<and>
   (\<not> wellFormed T \<longrightarrow>
      obfuscate T = T \<and> deobfuscate (obfuscate T) = [] \<and> T \<noteq> [])"
proof -
  have "deobfuscate (obfuscate T) = T" if wf: "wellFormed T"
    by (simp add: obfuscate_wellFormed [OF wf] deobfuscate_def
        atob_base64Encode [OF utf8Bytes_octets [OF wf]] escape_then_decode [OF wf])
  then show ?thesis using roundtrip_illFormed [of T] by auto
qed

theorem decode_after_encode_witness:
  "wellFormed [0x48, 0xE9, 0x20AC, 0xD83D, 0xDE00] \<and>
   deobfuscate (obfuscate [0x48, 0xE9, 0x20AC, 0xD83D, 0xDE00]) =
     [0x48, 0xE9, 0x20AC, 0xD83D, 0xDE00] \<and>
   \<not> wellFormed [0x48, 0xD83D] \<and>
   obfuscate [0x48, 0xD83D] = [0x48, 0xD83D] \<and>
   deobfuscate (obfuscate [0x48, 0xD83D]) = []"
proof -
  have w1: "wellFormed [0x48, 0xE9, 0x20AC, 0xD83D, 0xDE00]"
    by (simp add: isLeadingSurrogate_def isTrailingSurrogate_def)
  have w2: "\<not> wellFormed [0x48, 0xD83D]"
    by (simp add: isLeadingSurrogate_def isTrailingSurrogate_def)
  from w1 decode_after_encode [of "[0x48, 0xE9, 0x20AC, 0xD83D, 0xDE00]"]
  have r1: "deobfuscate (obfuscate [0x48, 0xE9, 0x20AC, 0xD83D, 0xDE00]) =
      [0x48, 0xE9, 0x20AC, 0xD83D, 0xDE00]"
    by blast
  from w2 decode_after_encode [of "[0x48, 0xD83D]"]
  have r2: "obfuscate [0x48, 0xD83D] = [0x48, 0xD83D] \<and>
      deobfuscate (obfuscate [0x48, 0xD83D]) = []"
    by blast
  from w1 w2 r1 r2 show ?thesis by blast
qed

end
